theory Spec2Isabelle
  imports Complex_Main "HOL-Library.Word"
begin

section \<open>JavaScript strings\<close>

text \<open>
  A JavaScript string is a sequence of 16-bit code units. \<open>js\<close> writes an ASCII literal
  of the source as such a sequence.
\<close>

type_synonym jsstring = "16 word list"

definition js :: "string \<Rightarrow> jsstring" where
  "js s = map (\<lambda>c. of_nat (of_char c)) s"

text \<open>
  The code units that \<open>String.prototype.trim\<close> removes: ECMAScript's WhiteSpace
  (TAB, VT, FF, SP, NBSP, ZWNBSP and the Unicode space separators) and LineTerminator
  (LF, CR, LS, PS).
\<close>

definition isWhiteSpace :: "16 word \<Rightarrow> bool" where
  "isWhiteSpace c \<longleftrightarrow>
     c = 0x0009 \<or> c = 0x000A \<or> c = 0x000B \<or> c = 0x000C \<or> c = 0x000D \<or>
     c = 0x0020 \<or> c = 0x00A0 \<or> c = 0x1680 \<or> (0x2000 \<le> c \<and> c \<le> 0x200A) \<or>
     c = 0x2028 \<or> c = 0x2029 \<or> c = 0x202F \<or> c = 0x205F \<or> c = 0x3000 \<or>
     c = 0xFEFF"

definition trim :: "jsstring \<Rightarrow> jsstring" where
  "trim s = rev (dropWhile isWhiteSpace (rev (dropWhile isWhiteSpace s)))"

text \<open>
  \<open>s.split(sep)\<close> for a string separator: scan from the left, cut at every occurrence
  of \<open>sep\<close> and resume behind it. The empty separator cuts between all code units.
  \<open>cur\<close> is the piece being collected.
\<close>

function split_loop :: "jsstring \<Rightarrow> jsstring \<Rightarrow> jsstring \<Rightarrow> jsstring list" where
  "split_loop sep cur [] = [cur]"
| "split_loop sep cur (c # cs) =
     (if sep \<noteq> [] \<and> take (length sep) (c # cs) = sep
      then cur # split_loop sep [] (drop (length sep) (c # cs))
      else split_loop sep (cur @ [c]) cs)"
  by pat_completeness auto
termination
  by (relation "measure (\<lambda>(sep, cur, s). length s)") auto

definition split :: "jsstring \<Rightarrow> jsstring \<Rightarrow> jsstring list" where
  "split s sep = (if sep = [] then map (\<lambda>c. [c]) s else split_loop sep [] s)"

text \<open>Truthiness of a string value: every string but the empty one.\<close>

definition truthy :: "jsstring \<Rightarrow> bool" where
  "truthy s \<longleftrightarrow> s \<noteq> []"

text \<open>\<open>xs.slice(start, end)\<close> for indices that are not negative; both are clamped.\<close>

definition array_slice :: "'a list \<Rightarrow> nat \<Rightarrow> nat \<Rightarrow> 'a list" where
  "array_slice xs start end = drop start (take end xs)"


section \<open>TranslationService: batches\<close>

text \<open>
  \<open>createBatches\<close> is the loop
  \<^verbatim>\<open>for (let i = 0; i < texts.length; i += batchSize) batches.push(texts.slice(i, i + batchSize))\<close>.
  With \<open>batchSize = 0\<close> and a non-empty list the loop never ends; the model is a
  partial function whose value is \<open>None\<close> there.
\<close>

partial_function (option) createBatches_loop ::
  "'a list \<Rightarrow> nat \<Rightarrow> nat \<Rightarrow> 'a list list \<Rightarrow> 'a list list option" where
  "createBatches_loop texts batchSize i batches =
     (if i < length texts
      then createBatches_loop texts batchSize (i + batchSize)
             (batches @ [array_slice texts i (i + batchSize)])
      else Some batches)"

definition createBatches :: "'a list \<Rightarrow> nat \<Rightarrow> 'a list list option" where
  "createBatches texts batchSize = createBatches_loop texts batchSize 0 []"



section \<open>JavaScript numbers\<close>

text \<open>
  A number is NaN, an infinity or a finite double; a finite double is modelled by the real
  it denotes. The rounding of a difference is not modelled: the values subtracted in this
  program are call counts, whose difference is exact.
\<close>

datatype jsnum = NaN | NegInf | Fin real | PosInf

fun js_sub :: "jsnum \<Rightarrow> jsnum \<Rightarrow> jsnum" where
  "js_sub (Fin a) (Fin b) = Fin (a - b)"
| "js_sub NaN _ = NaN"
| "js_sub _ NaN = NaN"
| "js_sub PosInf PosInf = NaN"
| "js_sub NegInf NegInf = NaN"
| "js_sub PosInf _ = PosInf"
| "js_sub NegInf _ = NegInf"
| "js_sub (Fin a) PosInf = NegInf"
| "js_sub (Fin a) NegInf = PosInf"

text \<open>\<open>a <= b\<close>: false as soon as one side is NaN.\<close>

fun js_le :: "jsnum \<Rightarrow> jsnum \<Rightarrow> bool" where
  "js_le NaN _ = False"
| "js_le _ NaN = False"
| "js_le NegInf _ = True"
| "js_le _ PosInf = True"
| "js_le (Fin a) (Fin b) = (a \<le> b)"
| "js_le (Fin a) NegInf = False"
| "js_le PosInf _ = False"

text \<open>
  \<open>Number(s)\<close> is the platform's conversion and a parameter of the model. On a string
  of decimal digits it is the number they write, which is all \<open>decimalNumber\<close> reads;
  it is used to run the model on concrete headers.
\<close>

definition isDigit :: "16 word \<Rightarrow> bool" where
  "isDigit c \<longleftrightarrow> 0x30 \<le> c \<and> c \<le> 0x39"

definition decimalNumber :: "jsstring \<Rightarrow> jsnum" where
  "decimalNumber s =
     (if s \<noteq> [] \<and> list_all isDigit s
      then Fin (of_nat (foldl (\<lambda>n c. 10 * n + (unat c - 48)) 0 s))
      else NaN)"


section \<open>ShopifyAPI: the rate governor\<close>

record shopify_api =
  storeUrl :: "jsstring option"
  shopifyKey :: "jsstring option"
  isConnected :: bool
  rateLimitRemaining :: jsnum
  lastRequestTime :: int

text \<open>The constructor of \<open>ShopifyAPI\<close>; \<open>shopifyKey\<close> is its field \<open>apiKey\<close>.\<close>

definition new_ShopifyAPI :: shopify_api where
  "new_ShopifyAPI =
     \<lparr>storeUrl = None, shopifyKey = None, isConnected = False,
      rateLimitRemaining = Fin 40, lastRequestTime = 0\<rparr>"

text \<open>
  \<open>waitForRateLimit\<close>. \<open>now\<close> is the first reading of \<open>Date.now()\<close> and
  \<open>resumed\<close> the second one, taken when the function goes on. The first component of
  the result is the delay handed to \<open>setTimeout\<close>, \<open>None\<close> when no timer is set.
\<close>

definition waitForRateLimit :: "int \<Rightarrow> int \<Rightarrow> shopify_api \<Rightarrow> int option \<times> shopify_api" where
  "waitForRateLimit now resumed s =
     (let timeSinceLastRequest = now - lastRequestTime s;
          waited =
            (if js_le (rateLimitRemaining s) (Fin 2) \<and> timeSinceLastRequest < 1000
             then Some (1000 - timeSinceLastRequest)
             else None)
      in (waited, s\<lparr>lastRequestTime := resumed\<rparr>))"

text \<open>
  \<open>updateRateLimit\<close>. \<open>headers\<close> is the response's Headers object, given by what its
  \<open>get\<close> returns (\<open>None\<close> for \<open>null\<close>). A destructured element that does not exist
  is \<open>undefined\<close>, which the subtraction converts to NaN.
\<close>

definition element_or_undefined :: "jsnum list \<Rightarrow> nat \<Rightarrow> jsnum" where
  "element_or_undefined xs i = (if i < length xs then xs ! i else NaN)"

definition updateRateLimit ::
  "(jsstring \<Rightarrow> jsnum) \<Rightarrow> (string \<rightharpoonup> jsstring) \<Rightarrow> shopify_api \<Rightarrow> shopify_api" where
  "updateRateLimit toNumber headers s =
     (case headers ''X-Shopify-Shop-Api-Call-Limit'' of
        None \<Rightarrow> s
      | Some remaining \<Rightarrow>
          if truthy remaining
          then (let parts = map toNumber (split remaining (js ''/''));
                    used = element_or_undefined parts 0;
                    total = element_or_undefined parts 1
                in s\<lparr>rateLimitRemaining := js_sub total used\<rparr>)
          else s)"


section \<open>TranslationService: state, requests and results\<close>

record service =
  apiKey :: "jsstring option"
  totalTokensUsed :: int
  requestCount :: int
  batchSize :: nat
  maxTokensPerRequest :: nat

definition new_TranslationService :: service where
  "new_TranslationService =
     \<lparr>apiKey = None, totalTokensUsed = 0, requestCount = 0,
      batchSize = 10, maxTokensPerRequest = 3000\<rparr>"

definition setApiKey :: "jsstring option \<Rightarrow> service \<Rightarrow> service" where
  "setApiKey k s = s\<lparr>apiKey := k\<rparr>"

text \<open>\<open>!this.apiKey\<close> holds for \<open>null\<close> and for the empty string.\<close>

definition keyMissing :: "service \<Rightarrow> bool" where
  "keyMissing s = (case apiKey s of None \<Rightarrow> True | Some k \<Rightarrow> \<not> truthy k)"

text \<open>
  A request is the object that \<open>validateFieldsForTranslation\<close> builds; the two
  properties that only markup-bearing requests carry are \<open>False\<close> and \<open>None\<close>
  on the others. A result is \<open>{ ...item, translatedText }\<close>: the request extended by
  one field.
\<close>

record request =
  field :: string
  originalText :: jsstring
  itemId :: int
  hasHTML :: bool
  originalHTML :: "jsstring option"

record result = request +
  translatedText :: jsstring

definition with_translation :: "request \<Rightarrow> jsstring \<Rightarrow> result" where
  "with_translation item t = request.extend item (result.fields t)"

definition request_of :: "result \<Rightarrow> request" where
  "request_of r = request.truncate r"

datatype js_error = KeyNotSet | FetchFailed | ApiError | BodyNotJSON | TypeError


section \<open>The hooks of the page\<close>

text \<open>
  The service calls \<open>window.updateProgress\<close> and \<open>window.updateTokenCount\<close> when they
  are set. A hook is \<open>None\<close> when the property is not set; otherwise it is what a call
  comes to: \<open>None\<close> when the call returns, the error when it throws.
  \<open>updateProgress\<close> is called with \<open>((i + 1) / batches.length) * 100\<close>, given here by
  the two numbers \<open>i + 1\<close> and \<open>batches.length\<close>.
\<close>

record window =
  updateProgress :: "(nat \<Rightarrow> nat \<Rightarrow> js_error option) option"
  updateTokenCount :: "(int \<Rightarrow> js_error option) option"

text \<open>
  The hooks that \<open>initializeApp\<close> installs. Each assigns to \<open>textContent\<close> of what
  \<open>document.getElementById\<close> returns, with no check, so it throws a TypeError when
  the page has no such element. The flag says whether the element is there.
\<close>

definition updateTokenCount_page :: "bool \<Rightarrow> int \<Rightarrow> js_error option" where
  "updateTokenCount_page present totalTokens = (if present then None else Some TypeError)"

definition updateProgress_page :: "bool \<Rightarrow> nat \<Rightarrow> nat \<Rightarrow> js_error option" where
  "updateProgress_page present finished batchCount = (if present then None else Some TypeError)"

definition app_window :: "bool \<Rightarrow> bool \<Rightarrow> window" where
  "app_window progressElement tokensElement =
     \<lparr>updateProgress = Some (updateProgress_page progressElement),
      updateTokenCount = Some (updateTokenCount_page tokensElement)\<rparr>"

text \<open>A page whose hooks, where set, return from every call.\<close>

definition hooks_return :: "window \<Rightarrow> bool" where
  "hooks_return w \<longleftrightarrow>
     (\<forall>f a b. updateProgress w = Some f \<longrightarrow> f a b = None)
     \<and> (\<forall>g n. updateTokenCount w = Some g \<longrightarrow> g n = None)"


section \<open>TranslationService: the upstream call\<close>

text \<open>
  The parsed body of a completion. A property that is absent, or holds a value of another
  kind than the code reads, is \<open>None\<close>. The counts of \<open>usage\<close> are the integers
  that the endpoint reports.
\<close>

record usage =
  total_tokens :: int
  prompt_tokens :: int
  completion_tokens :: int

record message =
  content :: "jsstring option"

record choice =
  message :: "message option"

record completion =
  choices :: "choice list option"
  usage :: "usage option"

text \<open>
  What one \<open>fetch\<close> comes to: the promise is rejected, the status is not 2xx, the body is
  not JSON, or the body parses (to \<open>null\<close>, or to an object).
\<close>

datatype fetch_reply = Rejected | NotOk | Unparsable | Body "completion option"

text \<open>
  \<open>makeOpenAIRequest\<close>. The counters are written before the hook is called, so they
  keep their new values when the hook throws.
\<close>

definition makeOpenAIRequest ::
  "window \<Rightarrow> fetch_reply \<Rightarrow> service \<Rightarrow> (js_error + completion) \<times> service" where
  "makeOpenAIRequest w reply s =
     (if keyMissing s then (Inl KeyNotSet, s)
      else case reply of
        Rejected \<Rightarrow> (Inl FetchFailed, s)
      | NotOk \<Rightarrow> (Inl ApiError, s)
      | Unparsable \<Rightarrow> (Inl BodyNotJSON, s)
      | Body None \<Rightarrow> (Inl TypeError, s)
      | Body (Some data) \<Rightarrow>
          (case usage data of
             None \<Rightarrow> (Inr data, s)
           | Some u \<Rightarrow>
               (let s' = s\<lparr>totalTokensUsed := totalTokensUsed s + total_tokens u,
                             requestCount := requestCount s + 1\<rparr>
                in case updateTokenCount w of
                     None \<Rightarrow> (Inr data, s')
                   | Some hook \<Rightarrow>
                       (case hook (totalTokensUsed s') of
                          None \<Rightarrow> (Inr data, s')
                        | Some e \<Rightarrow> (Inl e, s')))))"


section \<open>TranslationService: decoding a response\<close>

text \<open>\<open>response.choices[0].message.content.trim()\<close>, with the TypeError of each step.\<close>

definition response_text :: "completion \<Rightarrow> js_error + jsstring" where
  "response_text response =
     (case choices response of
        None \<Rightarrow> Inl TypeError
      | Some [] \<Rightarrow> Inl TypeError
      | Some (c # _) \<Rightarrow>
          (case message c of
             None \<Rightarrow> Inl TypeError
           | Some m \<Rightarrow>
               (case content m of
                  None \<Rightarrow> Inl TypeError
                | Some t \<Rightarrow> Inr (trim t))))"

text \<open>\<open>translations[index] || item.originalText\<close>.\<close>

definition translation_or :: "jsstring list \<Rightarrow> nat \<Rightarrow> jsstring \<Rightarrow> jsstring" where
  "translation_or translations index fallback =
     (if index < length translations \<and> truthy (translations ! index)
      then translations ! index
      else fallback)"

text \<open>The body of the \<open>try\<close> block of \<open>parseBatchResponse\<close>.\<close>

definition parseBatchResponse_try :: "completion \<Rightarrow> request list \<Rightarrow> js_error + result list" where
  "parseBatchResponse_try response originalBatch =
     (case response_text response of
        Inl e \<Rightarrow> Inl e
      | Inr text \<Rightarrow>
          (let translations = map trim (split text (js ''|||''))
           in Inr (map (\<lambda>(index, item).
                      with_translation item
                        (translation_or translations index (originalText item)))
                    (enumerate 0 originalBatch))))"

text \<open>
  The fallback of both \<open>catch\<close> blocks:
  \<open>batch.map(item => ({ ...item, translatedText: item.originalText }))\<close>.
\<close>

definition echo :: "request list \<Rightarrow> result list" where
  "echo batch = map (\<lambda>item. with_translation item (originalText item)) batch"

definition parseBatchResponse :: "completion \<Rightarrow> request list \<Rightarrow> js_error + result list" where
  "parseBatchResponse response originalBatch =
     (case parseBatchResponse_try response originalBatch of
        Inr results \<Rightarrow> Inr results
      | Inl e \<Rightarrow> Inr (echo originalBatch))"


section \<open>TranslationService: translating batches\<close>

text \<open>
  The prompt is a function of the batch, the target language and the context, so the
  endpoint is a function of these and of the number of the batch: \<open>upstream i lang ctx
  batch\<close> is what the call for batch \<open>i\<close> comes to. Logging and the delay between
  batches cannot throw (\<open>LogManager.log\<close> checks for its container before it writes,
  the delay is a timer) and are left out.
\<close>

type_synonym upstream = "nat \<Rightarrow> jsstring \<Rightarrow> jsstring \<Rightarrow> request list \<Rightarrow> fetch_reply"

definition translateBatch ::
  "window \<Rightarrow> fetch_reply \<Rightarrow> request list \<Rightarrow> service
     \<Rightarrow> (js_error + result list) \<times> service" where
  "translateBatch w reply batch s =
     (case makeOpenAIRequest w reply s of
        (Inl e, s') \<Rightarrow> (Inl e, s')
      | (Inr response, s') \<Rightarrow> (parseBatchResponse response batch, s'))"

text \<open>
  The body of the \<open>try\<close> block for one batch: \<open>translateBatch\<close>, then
  \<open>results.push(...batchResults)\<close>, then the progress hook. The result is the array
  \<open>results\<close> as the block leaves it and, when the block throws, the error: a throw of the
  hook comes after the push.
\<close>

definition try_batch ::
  "window \<Rightarrow> fetch_reply \<Rightarrow> nat \<Rightarrow> nat \<Rightarrow> request list \<Rightarrow> result list \<Rightarrow> service
     \<Rightarrow> (js_error option \<times> result list) \<times> service" where
  "try_batch w reply i batchCount batch results s =
     (case translateBatch w reply batch s of
        (Inl e, s') \<Rightarrow> ((Some e, results), s')
      | (Inr batchResults, s') \<Rightarrow>
          (case updateProgress w of
             None \<Rightarrow> ((None, results @ batchResults), s')
           | Some hook \<Rightarrow> ((hook (i + 1) batchCount, results @ batchResults), s')))"

text \<open>
  The loop over the batches; \<open>batchCount\<close> is \<open>batches.length\<close>. The \<open>catch\<close> block pushes
  the echo of the batch onto \<open>results\<close> as the \<open>try\<close> block left it.
\<close>

fun batchTranslate_loop ::
  "window \<Rightarrow> upstream \<Rightarrow> jsstring \<Rightarrow> jsstring \<Rightarrow> nat \<Rightarrow> nat \<Rightarrow> request list list
     \<Rightarrow> result list \<Rightarrow> service \<Rightarrow> result list \<times> service" where
  "batchTranslate_loop w up lang ctx batchCount i [] results s = (results, s)"
| "batchTranslate_loop w up lang ctx batchCount i (batch # batches) results s =
     (case try_batch w (up i lang ctx batch) i batchCount batch results s of
        ((None, results'), s') \<Rightarrow>
          batchTranslate_loop w up lang ctx batchCount (i + 1) batches results' s'
      | ((Some e, results'), s') \<Rightarrow>
          batchTranslate_loop w up lang ctx batchCount (i + 1) batches (results' @ echo batch) s')"

text \<open>
  \<open>batchTranslate\<close>: \<open>None\<close> when the partition loop does not end, else the error thrown
  or the results, and the state of the service afterwards.
\<close>

definition batchTranslate ::
  "window \<Rightarrow> upstream \<Rightarrow> request list \<Rightarrow> jsstring \<Rightarrow> jsstring \<Rightarrow> service
     \<Rightarrow> ((js_error + result list) \<times> service) option" where
  "batchTranslate w up texts targetLanguage ctx s =
     (if keyMissing s then Some (Inl KeyNotSet, s)
      else if texts = [] then Some (Inr [], s)
      else case createBatches texts (batchSize s) of
        None \<Rightarrow> None
      | Some batches \<Rightarrow>
          (case batchTranslate_loop w up targetLanguage ctx (length batches) 0 batches [] s of
             (results, s') \<Rightarrow> Some (Inr results, s')))"

record stats =
  stat_totalTokensUsed :: int
  stat_requestCount :: int
  averageTokensPerRequest :: int

text \<open>
  \<open>getStats\<close>; \<open>Math.round\<close> of a quotient of integers rounds halves upwards.
\<close>

definition getStats :: "service \<Rightarrow> stats" where
  "getStats s =
     \<lparr>stat_totalTokensUsed = totalTokensUsed s,
      stat_requestCount = requestCount s,
      averageTokensPerRequest =
        (if requestCount s > 0
         then (2 * totalTokensUsed s + requestCount s) div (2 * requestCount s)
         else 0)\<rparr>"

definition resetStats :: "service \<Rightarrow> service" where
  "resetStats s = s\<lparr>totalTokensUsed := 0, requestCount := 0\<rparr>"


section \<open>The document tree\<close>

text \<open>
  The HTML parser and serialiser are the browser's; the model takes them as the record
  \<open>dom\<close>. \<open>parseFragment\<close> is what \<open>div.innerHTML = html\<close> makes the children of
  a fresh \<open>div\<close>, \<open>serializeFragment\<close> is what \<open>div.innerHTML\<close> reads back, and
  \<open>innerText\<close> is that property of the \<open>div\<close>.
\<close>

datatype node =
  Text jsstring
| Comment jsstring
| Element jsstring "(jsstring \<times> jsstring) list" "node list"

record dom =
  parseFragment :: "jsstring \<Rightarrow> node list"
  serializeFragment :: "node list \<Rightarrow> jsstring"
  innerText :: "node list \<Rightarrow> jsstring"

text \<open>
  The data of the text nodes below a node, in document order: the order in which a
  TreeWalker showing text nodes visits them.
\<close>

fun text_values :: "node \<Rightarrow> jsstring list" where
  "text_values (Text v) = [v]"
| "text_values (Comment v) = []"
| "text_values (Element name attrs children) = concat (map text_values children)"

definition walk_text :: "node list \<Rightarrow> jsstring list" where
  "walk_text nodes = concat (map text_values nodes)"

definition textContent :: "node list \<Rightarrow> jsstring" where
  "textContent nodes = concat (walk_text nodes)"

text \<open>Assigning \<open>nodeValue\<close> of the \<open>k\<close>-th text node in document order.\<close>

fun set_nodeValue :: "nat \<Rightarrow> jsstring \<Rightarrow> node list \<Rightarrow> node list" where
  "set_nodeValue k v [] = []"
| "set_nodeValue k v (Text x # nodes) =
     (if k = 0 then Text v # nodes else Text x # set_nodeValue (k - 1) v nodes)"
| "set_nodeValue k v (Comment x # nodes) = Comment x # set_nodeValue k v nodes"
| "set_nodeValue k v (Element name attrs children # nodes) =
     (if k < length (walk_text children)
      then Element name attrs (set_nodeValue k v children) # nodes
      else Element name attrs children # set_nodeValue (k - length (walk_text children)) v nodes)"

text \<open>A tree with the data of its text nodes erased: what an assignment to one leaves alone.\<close>

fun shape :: "node \<Rightarrow> node" where
  "shape (Text v) = Text []"
| "shape (Comment v) = Comment v"
| "shape (Element name attrs children) = Element name attrs (map shape children)"


section \<open>TranslationService: the HTML text bridge\<close>

definition stripHTML :: "dom \<Rightarrow> jsstring \<Rightarrow> jsstring" where
  "stripHTML d html =
     (let tree = parseFragment d html
      in if truthy (textContent tree) then textContent tree
         else if truthy (innerText d tree) then innerText d tree
         else [])"

text \<open>
  \<open>restoreHTML\<close>; \<open>tree\<close> stands for the children of its \<open>div\<close>.
  \<open>textNodes\<close> holds the positions, in document order, of the text
  nodes whose \<open>nodeValue.trim()\<close> is not empty.
\<close>

definition nonblank_text_nodes :: "node list \<Rightarrow> nat list" where
  "nonblank_text_nodes tree =
     filter (\<lambda>k. truthy (trim (walk_text tree ! k))) [0 ..< length (walk_text tree)]"

definition restoreHTML :: "dom \<Rightarrow> jsstring \<Rightarrow> jsstring \<Rightarrow> jsstring" where
  "restoreHTML d markup translated =
     (let tree = parseFragment d markup;
          textNodes = nonblank_text_nodes tree;
          tree' = (if length textNodes = 1
                   then set_nodeValue (textNodes ! 0) translated tree
                   else tree)
      in serializeFragment d tree')"


section \<open>TranslationService: extracting the requests of a record\<close>

record item =
  item_id :: int
  title :: "jsstring option"
  body_html :: "jsstring option"
  tags :: "jsstring option"

text \<open>
  \<open>selectedFields\<close> is an object whose values are the states of checkboxes;
  \<open>selectedFields.name\<close> is truthy when the property is there and \<open>true\<close>.
\<close>

type_synonym selection = "(string \<times> bool) list"

definition selected :: "selection \<Rightarrow> string \<Rightarrow> bool" where
  "selected selectedFields name \<longleftrightarrow> map_of selectedFields name = Some True"

text \<open>
  The block for a field whose value is passed on as it is:
  \<open>if (selectedFields.f && item.f) validatedTexts.push({field, originalText: item.f, itemId})\<close>.
\<close>

definition plain_field :: "selection \<Rightarrow> string \<Rightarrow> jsstring option \<Rightarrow> int \<Rightarrow> request list" where
  "plain_field selectedFields name v i =
     (case v of
        None \<Rightarrow> []
      | Some t \<Rightarrow>
          if selected selectedFields name \<and> truthy t
          then [\<lparr>field = name, originalText = t, itemId = i,
                 hasHTML = False, originalHTML = None\<rparr>]
          else [])"

text \<open>
  The block for a field that holds markup: the value is stripped, and pushed when
  \<open>textContent.trim()\<close> is not empty.
\<close>

definition markup_field ::
  "dom \<Rightarrow> selection \<Rightarrow> string \<Rightarrow> jsstring option \<Rightarrow> int \<Rightarrow> request list" where
  "markup_field d selectedFields name v i =
     (case v of
        None \<Rightarrow> []
      | Some html \<Rightarrow>
          if selected selectedFields name \<and> truthy html
          then (let stripped = stripHTML d html
                in if truthy (trim stripped)
                   then [\<lparr>field = name, originalText = stripped, itemId = i,
                          hasHTML = True, originalHTML = Some html\<rparr>]
                   else [])
          else [])"

definition validateFieldsForTranslation ::
  "dom \<Rightarrow> item \<Rightarrow> selection \<Rightarrow> string \<Rightarrow> request list" where
  "validateFieldsForTranslation d it selectedFields itemType =
     (if itemType = ''product'' then
        plain_field selectedFields ''title'' (title it) (item_id it)
        @ markup_field d selectedFields ''description'' (body_html it) (item_id it)
        @ plain_field selectedFields ''tags'' (tags it) (item_id it)
      else if itemType = ''collection'' then
        plain_field selectedFields ''title'' (title it) (item_id it)
        @ markup_field d selectedFields ''description'' (body_html it) (item_id it)
      else if itemType = ''page'' then
        plain_field selectedFields ''title'' (title it) (item_id it)
        @ markup_field d selectedFields ''content'' (body_html it) (item_id it)
      else [])"


section \<open>The pre-flight check of a translation job\<close>

text \<open>
  \<open>validateTranslationRequest\<close> returns its verdict and the entries it logs, each a
  level and a message.
\<close>

definition validateTranslationRequest ::
  "selection \<Rightarrow> 'id list \<Rightarrow> string \<Rightarrow> bool \<times> (string \<times> string) list" where
  "validateTranslationRequest selectedFields selectedIds itemType =
     (let hasSelectedFields = list_ex (\<lambda>f. f) (map snd selectedFields)
      in if \<not> hasSelectedFields
         then (False, [(''error'',
                 ''Please select at least one field to translate for '' @ itemType)])
         else if length selectedIds = 0
         then (False, [(''error'',
                 ''Please select at least one '' @ butlast itemType @ '' to translate'')])
         else (True, []))"

text \<open>
  \<open>translateProducts\<close>, \<open>translateCollections\<close> and \<open>translatePages\<close> open with
  \<open>if (!validateTranslationRequest(...)) return;\<close>. \<open>job\<close> is the sequence of network
  calls that the rest of the function makes; the result is the sequence the function makes.
\<close>

definition translateProducts :: "selection \<Rightarrow> 'id list \<Rightarrow> 'call list \<Rightarrow> 'call list" where
  "translateProducts selectedFields selectedIds job =
     (if \<not> fst (validateTranslationRequest selectedFields selectedIds ''products'')
      then [] else job)"

definition translateCollections :: "selection \<Rightarrow> 'id list \<Rightarrow> 'call list \<Rightarrow> 'call list" where
  "translateCollections selectedFields selectedIds job =
     (if \<not> fst (validateTranslationRequest selectedFields selectedIds ''collections'')
      then [] else job)"

definition translatePages :: "selection \<Rightarrow> 'id list \<Rightarrow> 'call list \<Rightarrow> 'call list" where
  "translatePages selectedFields selectedIds job =
     (if \<not> fst (validateTranslationRequest selectedFields selectedIds ''pages'')
      then [] else job)"


section \<open>The operations of the translation service\<close>

text \<open>
  The methods of \<open>TranslationService\<close> as operations on its state. \<open>Query\<close> stands for
  the methods whose bodies assign to no field: \<open>createBatches\<close>, \<open>createBatchPrompt\<close>,
  \<open>getSystemPrompt\<close>, \<open>parseBatchResponse\<close>, \<open>validateFieldsForTranslation\<close>,
  \<open>stripHTML\<close>, \<open>restoreHTML\<close>, \<open>getStats\<close>, \<open>delay\<close> and \<open>log\<close>.
  The result is \<open>None\<close> when the operation does not return. \<open>w\<close> holds the hooks of
  the page the service runs in.
\<close>

datatype operation =
  SetApiKey "jsstring option"
| BatchTranslate upstream "request list" jsstring jsstring
| TranslateBatch fetch_reply "request list"
| MakeOpenAIRequest fetch_reply
| Query
| ResetStats

fun exec :: "window \<Rightarrow> operation \<Rightarrow> service \<Rightarrow> service option" where
  "exec w (SetApiKey k) s = Some (setApiKey k s)"
| "exec w (BatchTranslate up texts lang ctx) s =
     map_option snd (batchTranslate w up texts lang ctx s)"
| "exec w (TranslateBatch reply batch) s = Some (snd (translateBatch w reply batch s))"
| "exec w (MakeOpenAIRequest reply) s = Some (snd (makeOpenAIRequest w reply s))"
| "exec w Query s = Some s"
| "exec w ResetStats s = Some (resetStats s)"

fun run :: "window \<Rightarrow> operation list \<Rightarrow> service \<Rightarrow> service option" where
  "run w [] s = Some s"
| "run w (op # ops) s = (case exec w op s of None \<Rightarrow> None | Some s' \<Rightarrow> run w ops s')"


definition reported_tokens :: "fetch_reply \<Rightarrow> int" where
  "reported_tokens reply =
     (case reply of
        Body (Some data) \<Rightarrow> (case usage data of Some u \<Rightarrow> total_tokens u | None \<Rightarrow> 0)
      | _ \<Rightarrow> 0)"


section \<open>The results of a batch, as the specification words them\<close>

text \<open>
  A batch whose upstream call fails yields the echo of its requests; a batch whose call
  succeeds yields the decoded response: one list of results per batch, as long as the
  batch.
\<close>

definition spec_batch_results :: "fetch_reply \<Rightarrow> request list \<Rightarrow> result list" where
  "spec_batch_results reply batch =
     (case reply of
        Body (Some data) \<Rightarrow>
          (case parseBatchResponse data batch of Inr results \<Rightarrow> results | Inl e \<Rightarrow> echo batch)
      | _ \<Rightarrow> echo batch)"


section \<open>The order on the usage counters\<close>



section \<open>A fragment of the browser's HTML algorithms\<close>

text \<open>
  To run \<open>stripHTML\<close> and \<open>restoreHTML\<close> on concrete markup, a part of the HTML
  standard's fragment parsing and serialisation is written out: a \<open>dom\<close> that agrees
  with a browser on the markup it supports and makes no statement about the rest.
\<close>

text \<open>
  The tokenizer is the standard's state machine, cut down to character data and to tags
  that are a name and nothing else. Whatever else the input holds (a character
  reference, an attribute, a comment, a NUL or a carriage return, the end of the input
  inside a tag) is the token \<open>Unsupported\<close>, at which the model stops.
\<close>

definition isAlpha :: "16 word \<Rightarrow> bool" where
  "isAlpha c \<longleftrightarrow> (0x41 \<le> c \<and> c \<le> 0x5A) \<or> (0x61 \<le> c \<and> c \<le> 0x7A)"

definition toLower :: "16 word \<Rightarrow> 16 word" where
  "toLower c = (if 0x41 \<le> c \<and> c \<le> 0x5A then c + 0x20 else c)"

datatype token = Characters jsstring | StartTag jsstring | EndTag jsstring | Unsupported

datatype tokenizer_state = Data | TagOpen | EndTagOpen | TagName bool

definition flush_text :: "jsstring \<Rightarrow> token list" where
  "flush_text pending = (if pending = [] then [] else [Characters pending])"

fun tokenize :: "tokenizer_state \<Rightarrow> jsstring \<Rightarrow> jsstring \<Rightarrow> token list" where
  "tokenize Data pending [] = flush_text pending"
| "tokenize Data pending (c # cs) =
     (if c = 0x3C then flush_text pending @ tokenize TagOpen [] cs
      else if c = 0x26 \<or> c = 0x00 \<or> c = 0x0D then [Unsupported]
      else tokenize Data (pending @ [c]) cs)"
| "tokenize TagOpen pending [] = [Unsupported]"
| "tokenize TagOpen pending (c # cs) =
     (if c = 0x2F then tokenize EndTagOpen [] cs
      else if isAlpha c then tokenize (TagName False) [toLower c] cs
      else [Unsupported])"
| "tokenize EndTagOpen pending [] = [Unsupported]"
| "tokenize EndTagOpen pending (c # cs) =
     (if isAlpha c then tokenize (TagName True) [toLower c] cs else [Unsupported])"
| "tokenize (TagName closing) pending [] = [Unsupported]"
| "tokenize (TagName closing) pending (c # cs) =
     (if c = 0x3E
      then (if closing then EndTag pending else StartTag pending) # tokenize Data [] cs
      else if isAlpha c \<or> isDigit c then tokenize (TagName closing) (pending @ [toLower c]) cs
      else [Unsupported])"

text \<open>
  Tree construction, in the insertion mode ``in body'' of a fragment parsed for a
  \<open>div\<close>. The stack holds the open elements, innermost first, each with the children it
  has so far; its last entry is the \<open>div\<close> itself. Only \<open>div\<close>, \<open>span\<close> and \<open>p\<close>
  are built, and only where the standard inserts the element as it comes: a \<open>div\<close> or a
  \<open>p\<close> that would close an open \<open>p\<close>, an end tag that does not match the current
  element, and every other element are outside the model (\<open>None\<close>). Elements still
  open at the end of the input are closed there.
\<close>

definition plain_element :: "jsstring \<Rightarrow> bool" where
  "plain_element name \<longleftrightarrow> name = js ''div'' \<or> name = js ''span'' \<or> name = js ''p''"

definition closes_paragraph :: "jsstring \<Rightarrow> (jsstring \<times> node list) list \<Rightarrow> bool" where
  "closes_paragraph name stack \<longleftrightarrow>
     (name = js ''div'' \<or> name = js ''p'') \<and> js ''p'' \<in> set (map fst stack)"

fun add_child :: "node \<Rightarrow> (jsstring \<times> node list) list \<Rightarrow> (jsstring \<times> node list) list" where
  "add_child x [] = []"
| "add_child x ((name, children) # stack) = (name, children @ [x]) # stack"

function build :: "(jsstring \<times> node list) list \<Rightarrow> token list \<Rightarrow> node list option" where
  "build [] ts = None"
| "build [(name, children)] [] = Some children"
| "build ((name, children) # (name', children') # stack) [] =
     build (add_child (Element name [] children) ((name', children') # stack)) []"
| "build ((name, children) # stack) (Characters t # ts) =
     build (add_child (Text t) ((name, children) # stack)) ts"
| "build ((name, children) # stack) (StartTag n # ts) =
     (if plain_element n \<and> \<not> closes_paragraph n ((name, children) # stack)
      then build ((n, []) # (name, children) # stack) ts
      else None)"
| "build [(name, children)] (EndTag n # ts) = None"
| "build ((name, children) # (name', children') # stack) (EndTag n # ts) =
     (if n = name
      then build (add_child (Element name [] children) ((name', children') # stack)) ts
      else None)"
| "build ((name, children) # stack) (Unsupported # ts) = None"
  by pat_completeness auto
termination
  by (relation "measures [\<lambda>(stack, ts). length ts, \<lambda>(stack, ts). length stack]") auto

text \<open>
  \<open>html_supported\<close> holds for the markup inside the model; \<open>html_parse\<close> is the
  parser's result there.
\<close>

definition html_parse :: "jsstring \<Rightarrow> node list" where
  "html_parse s =
     (case build [(js ''div'', [])] (tokenize Data [] s) of Some nodes \<Rightarrow> nodes | None \<Rightarrow> [])"

definition html_supported :: "jsstring \<Rightarrow> bool" where
  "html_supported s \<longleftrightarrow> build [(js ''div'', [])] (tokenize Data [] s) \<noteq> None"

text \<open>
  Serialisation, for the trees that \<open>html_parse\<close> builds: their elements have no
  attributes, and none of them is a void element or has raw text content.
\<close>

definition escape_text :: "jsstring \<Rightarrow> jsstring" where
  "escape_text s =
     concat (map (\<lambda>c. if c = 0x26 then js ''&amp;''
                       else if c = 0xA0 then js ''&nbsp;''
                       else if c = 0x3C then js ''&lt;''
                       else if c = 0x3E then js ''&gt;''
                       else [c]) s)"

fun html_serialize_node :: "node \<Rightarrow> jsstring" where
  "html_serialize_node (Text v) = escape_text v"
| "html_serialize_node (Comment v) = js ''<!--'' @ v @ js ''-->''"
| "html_serialize_node (Element name attrs children) =
     js ''<'' @ name @ js ''>'' @ concat (map html_serialize_node children)
     @ js ''</'' @ name @ js ''>''"

definition html_serialize :: "node list \<Rightarrow> jsstring" where
  "html_serialize nodes = concat (map html_serialize_node nodes)"

text \<open>
  The \<open>innerText\<close> of an element that is not rendered, as the fresh \<open>div\<close> is not, is
  its \<open>textContent\<close>.
\<close>

definition html_dom :: dom where
  "html_dom = \<lparr>parseFragment = html_parse, serializeFragment = html_serialize,
               innerText = textContent\<rparr>"


section \<open>Sample data\<close>

definition sample_request :: "string \<Rightarrow> jsstring \<Rightarrow> request" where
  "sample_request name t =
     \<lparr>field = name, originalText = t, itemId = 7, hasHTML = False, originalHTML = None\<rparr>"

definition sample_completion :: "jsstring \<Rightarrow> completion" where
  "sample_completion t =
     \<lparr>choices = Some [\<lparr>message = Some \<lparr>content = Some t\<rparr>\<rparr>], usage = None\<rparr>"

definition sample_usage :: "jsstring \<Rightarrow> int \<Rightarrow> completion" where
  "sample_usage t n =
     \<lparr>choices = Some [\<lparr>message = Some \<lparr>content = Some t\<rparr>\<rparr>],
      usage = Some \<lparr>total_tokens = n, prompt_tokens = n, completion_tokens = 0\<rparr>\<rparr>"


section \<open>Properties of the batch partitioner\<close>

lemma createBatches_loop_done:
  "length texts \<le> i \<Longrightarrow> createBatches_loop texts b i acc = Some acc"
  by (subst createBatches_loop.simps) simp

lemma createBatches_loop_step:
  "i < length texts \<Longrightarrow>
   createBatches_loop texts b i acc =
     createBatches_loop texts b (i + b) (acc @ [array_slice texts i (i + b)])"
  by (subst createBatches_loop.simps) simp

lemma slice_chunk: "array_slice xs i (i + b) = take b (drop i xs)"
  by (simp add: array_slice_def drop_take)

lemma createBatches_loop_total:
  assumes "1 \<le> b"
  shows "\<exists>bs. createBatches_loop texts b i acc = Some (acc @ bs)
           \<and> concat bs = drop i texts
           \<and> (bs = [] \<longleftrightarrow> length texts \<le> i)
           \<and> (\<forall>k. Suc k < length bs \<longrightarrow> length (bs ! k) = b)
           \<and> (\<forall>x \<in> set bs. x \<noteq> [] \<and> length x \<le> b)"
proof (induction "length texts - i" arbitrary: i acc rule: less_induct)
  case less
  show ?case
  proof (cases "i < length texts")
    case False
    then have "createBatches_loop texts b i acc = Some (acc @ [])"
      by (simp add: createBatches_loop_done)
    with False show ?thesis by force
  next
    case True
    let ?c = "array_slice texts i (i + b)"
    from True assms have "length texts - (i + b) < length texts - i" by arith
    from less [OF this, of "acc @ [?c]"]
    obtain bs where run: "createBatches_loop texts b (i + b) (acc @ [?c]) = Some ((acc @ [?c]) @ bs)"
      and cat: "concat bs = drop (i + b) texts"
      and emp: "bs = [] \<longleftrightarrow> length texts \<le> i + b"
      and len: "\<forall>k. Suc k < length bs \<longrightarrow> length (bs ! k) = b"
      and ne: "\<forall>x \<in> set bs. x \<noteq> [] \<and> length x \<le> b"
      by blast
    have c_eq: "?c = take b (drop i texts)" by (rule slice_chunk)
    have c_ne: "?c \<noteq> []" using True assms by (simp add: c_eq)
    have c_le: "length ?c \<le> b" by (simp add: c_eq)
    have "createBatches_loop texts b i acc = Some (acc @ (?c # bs))"
      using run True by (simp add: createBatches_loop_step)
    moreover have "concat (?c # bs) = drop i texts"
    proof -
      have d: "drop (i + b) texts = drop b (drop i texts)" by (simp add: add.commute)
      show ?thesis by (simp only: concat.simps cat c_eq d append_take_drop_id)
    qed
    moreover have "(?c # bs = []) \<longleftrightarrow> length texts \<le> i" using True by simp
    moreover have "\<forall>k. Suc k < length (?c # bs) \<longrightarrow> length ((?c # bs) ! k) = b"
    proof (intro allI impI)
      fix k assume k: "Suc k < length (?c # bs)"
      show "length ((?c # bs) ! k) = b"
      proof (cases k)
        case 0
        with k have "bs \<noteq> []" by auto
        with emp have "i + b < length texts" by simp
        then show ?thesis using 0 by (simp add: c_eq)
      next
        case (Suc j)
        with k len show ?thesis by simp
      qed
    qed
    moreover have "\<forall>x \<in> set (?c # bs). x \<noteq> [] \<and> length x \<le> b"
      using ne c_ne c_le by simp
    ultimately show ?thesis by blast
  qed
qed

text \<open>
  Claim C2. For every list of requests \<open>R\<close> and every batch size \<open>b \<ge> 1\<close>,
  \<open>createBatches\<close> returns; its batches, concatenated in order, are \<open>R\<close>; every
  batch but possibly the last has exactly \<open>b\<close> elements (the last one has between
  one and \<open>b\<close>); and the empty list yields no batch at all.
\<close>

theorem createBatches_partition:
  assumes "1 \<le> b"
  shows "\<exists>bs. createBatches R b = Some bs
           \<and> concat bs = R
           \<and> (\<forall>k. Suc k < length bs \<longrightarrow> length (bs ! k) = b)
           \<and> (\<forall>x \<in> set bs. x \<noteq> [] \<and> length x \<le> b)
           \<and> (R = [] \<longrightarrow> bs = [])"
proof -
  from createBatches_loop_total [OF assms, of R 0 "[]"]
  obtain bs where "createBatches_loop R b 0 [] = Some ([] @ bs)"
    and "concat bs = drop 0 R"
    and "bs = [] \<longleftrightarrow> length R \<le> 0"
    and "\<forall>k. Suc k < length bs \<longrightarrow> length (bs ! k) = b"
    and "\<forall>x \<in> set bs. x \<noteq> [] \<and> length x \<le> b"
    by blast
  then show ?thesis by (auto simp: createBatches_def)
qed

theorem createBatches_partition_witness:
  "(1::nat) \<le> 2
   \<and> createBatches [1, 2, 3, 4, 5 :: nat] 2 = Some [[1, 2], [3, 4], [5]]
   \<and> createBatches ([] :: nat list) 2 = Some []"
proof -
  have h: "(1::nat) \<le> 2" by simp
  from createBatches_partition [OF h, of "[1, 2, 3, 4, 5 :: nat]"]
  obtain bs where "createBatches [1, 2, 3, 4, 5 :: nat] 2 = Some bs" by blast
  moreover have "createBatches [1, 2, 3, 4, 5 :: nat] 2 = Some [[1, 2], [3, 4], [5]]"
    by (simp add: createBatches_def createBatches_loop.simps array_slice_def)
  moreover have "createBatches ([] :: nat list) 2 = Some []"
    by (simp add: createBatches_def createBatches_loop.simps)
  ultimately show ?thesis using h by simp
qed


section \<open>Properties of splitting and trimming\<close>

lemma split_loop_nonempty: "split_loop sep cur s \<noteq> []"
  by (induction sep cur s rule: split_loop.induct) auto

lemma split_loop_cur:
  "split_loop sep cur s = (cur @ hd (split_loop sep [] s)) # tl (split_loop sep [] s)"
proof (induction s arbitrary: cur)
  case Nil
  then show ?case by simp
next
  case (Cons c cs)
  show ?case
  proof (cases "sep \<noteq> [] \<and> take (length sep) (c # cs) = sep")
    case True
    then show ?thesis by simp
  next
    case False
    have "split_loop sep cur (c # cs) = split_loop sep (cur @ [c]) cs"
      using False by auto
    also have "\<dots> = ((cur @ [c]) @ hd (split_loop sep [] cs)) # tl (split_loop sep [] cs)"
      by (rule Cons.IH)
    finally have l: "split_loop sep cur (c # cs)
        = (cur @ c # hd (split_loop sep [] cs)) # tl (split_loop sep [] cs)" by simp
    have "split_loop sep [] (c # cs) = split_loop sep ([] @ [c]) cs"
      using False by auto
    also have "\<dots> = (([] @ [c]) @ hd (split_loop sep [] cs)) # tl (split_loop sep [] cs)"
      by (rule Cons.IH)
    finally have r: "split_loop sep [] (c # cs)
        = (c # hd (split_loop sep [] cs)) # tl (split_loop sep [] cs)" by simp
    show ?thesis by (simp only: l r list.sel append_Cons append_Nil)
  qed
qed

lemma split_loop_free:
  "sep \<noteq> [] \<Longrightarrow> set w \<inter> set sep = {} \<Longrightarrow> split_loop sep cur w = [cur @ w]"
proof (induction w arbitrary: cur)
  case Nil
  then show ?case by simp
next
  case (Cons c cs)
  from Cons.prems have "c \<notin> set sep" by auto
  moreover from Cons.prems obtain x xs where "sep = x # xs" by (cases sep) auto
  ultimately have "take (length sep) (c # cs) \<noteq> sep" by auto
  moreover from Cons.prems have "set cs \<inter> set sep = {}" by auto
  ultimately show ?case using Cons.IH [of "cur @ [c]"] Cons.prems(1) by simp
qed

lemma split_loop_leading:
  "sep \<noteq> [] \<Longrightarrow> set w \<inter> set sep = {} \<Longrightarrow> split_loop sep cur (w @ s) = split_loop sep (cur @ w) s"
proof (induction w arbitrary: cur)
  case Nil
  then show ?case by simp
next
  case (Cons c cs)
  from Cons.prems have "c \<notin> set sep" by auto
  moreover from Cons.prems obtain x xs where "sep = x # xs" by (cases sep) auto
  ultimately have "take (length sep) (c # cs @ s) \<noteq> sep" by auto
  moreover from Cons.prems have "set cs \<inter> set sep = {}" by auto
  ultimately show ?case using Cons.IH [of "cur @ [c]"] Cons.prems(1) by simp
qed

lemma take_append_free:
  assumes "set w \<inter> set sep = {}"
  shows "take (length sep) (s @ w) = sep \<longleftrightarrow> take (length sep) s = sep"
proof (cases "length sep \<le> length s")
  case True
  then show ?thesis by simp
next
  case False
  then have short: "length s < length sep" by simp
  have "take (length sep) (s @ w) \<noteq> sep"
  proof
    assume eq: "take (length sep) (s @ w) = sep"
    then have "length (take (length sep) (s @ w)) = length sep" by simp
    then have "length sep \<le> length (s @ w)" by simp
    with short have "w \<noteq> []" by auto
    have "take (length sep) (s @ w) ! length s = (s @ w) ! length s"
      using short by (rule nth_take)
    then have "sep ! length s = (s @ w) ! length s" by (simp only: eq)
    then have "sep ! length s = w ! 0" by (simp add: nth_append)
    moreover have "sep ! length s \<in> set sep" using short by (rule nth_mem)
    ultimately have "w ! 0 \<in> set sep" by simp
    moreover have "w ! 0 \<in> set w" using \<open>w \<noteq> []\<close> by simp
    ultimately show False using assms by auto
  qed
  moreover have "take (length sep) s \<noteq> sep"
  proof
    assume "take (length sep) s = sep"
    then have "length (take (length sep) s) = length sep" by simp
    with short show False by simp
  qed
  ultimately show ?thesis by simp
qed

lemma split_loop_trailing:
  assumes "sep \<noteq> []" "set w \<inter> set sep = {}"
  shows "split_loop sep cur (s @ w)
           = butlast (split_loop sep cur s) @ [last (split_loop sep cur s) @ w]"
proof (induction s arbitrary: cur rule: length_induct)
  case (1 s)
  show ?case
  proof (cases s)
    case Nil
    then show ?thesis using assms by (simp add: split_loop_free)
  next
    case (Cons c cs)
    show ?thesis
    proof (cases "take (length sep) (c # cs) = sep")
      case True
      then have m: "take (length sep) ((c # cs) @ w) = sep"
        using take_append_free [OF assms(2), of "c # cs"] by simp
      have "length (take (length sep) (c # cs)) = length sep" using True by simp
      then have len: "length sep \<le> length (c # cs)" by simp
      let ?r = "drop (length sep) (c # cs)"
      have shorter: "length ?r < length s" using assms(1) Cons by simp
      have d: "drop (length sep) ((c # cs) @ w) = ?r @ w"
        by (simp only: drop_append) (use len in simp)
      have "split_loop sep cur ((c # cs) @ w) = cur # split_loop sep [] (?r @ w)"
        using m assms(1) d by (simp del: drop_append)
      also have "split_loop sep [] (?r @ w)
          = butlast (split_loop sep [] ?r) @ [last (split_loop sep [] ?r) @ w]"
        using 1 shorter by blast
      finally have l: "split_loop sep cur ((c # cs) @ w)
          = cur # butlast (split_loop sep [] ?r) @ [last (split_loop sep [] ?r) @ w]" .
      have r: "split_loop sep cur (c # cs) = cur # split_loop sep [] ?r"
        using True assms(1) by simp
      show ?thesis
        unfolding Cons l r using split_loop_nonempty [of sep "[]" ?r] by simp
    next
      case False
      then have m: "take (length sep) ((c # cs) @ w) \<noteq> sep"
        using take_append_free [OF assms(2), of "c # cs"] by simp
      have "split_loop sep cur ((c # cs) @ w) = split_loop sep (cur @ [c]) (cs @ w)"
        using m by simp
      also have "\<dots> = butlast (split_loop sep (cur @ [c]) cs)
                        @ [last (split_loop sep (cur @ [c]) cs) @ w]"
        using 1 Cons by simp
      finally have l: "split_loop sep cur ((c # cs) @ w)
          = butlast (split_loop sep (cur @ [c]) cs) @ [last (split_loop sep (cur @ [c]) cs) @ w]" .
      have r: "split_loop sep cur (c # cs) = split_loop sep (cur @ [c]) cs"
        using False by simp
      show ?thesis unfolding Cons l r ..
    qed
  qed
qed

lemma trim_leading: "\<forall>c \<in> set w. isWhiteSpace c \<Longrightarrow> trim (w @ s) = trim s"
  by (simp add: trim_def dropWhile_append2)

lemma trim_trailing:
  assumes "\<forall>c \<in> set w. isWhiteSpace c"
  shows "trim (s @ w) = trim s"
proof (cases "\<forall>c \<in> set s. isWhiteSpace c")
  case True
  then have a: "dropWhile isWhiteSpace (s @ w) = []"
    using assms by auto
  from True have b: "dropWhile isWhiteSpace s = []" by auto
  show ?thesis unfolding trim_def a b ..
next
  case False
  then obtain c where "c \<in> set s" "\<not> isWhiteSpace c" by blast
  then have "dropWhile isWhiteSpace (s @ w) = dropWhile isWhiteSpace s @ w"
    by (rule dropWhile_append1)
  moreover have "dropWhile isWhiteSpace (rev w @ x) = dropWhile isWhiteSpace x" for x
    by (rule dropWhile_append2) (use assms in auto)
  ultimately show ?thesis by (simp add: trim_def)
qed

lemma trim_decompose:
  "\<exists>lead trail. s = lead @ trim s @ trail
     \<and> (\<forall>c \<in> set lead. isWhiteSpace c) \<and> (\<forall>c \<in> set trail. isWhiteSpace c)"
proof -
  let ?a = "dropWhile isWhiteSpace s"
  let ?t = "rev (takeWhile isWhiteSpace (rev ?a))"
  have "rev (takeWhile isWhiteSpace (rev ?a) @ dropWhile isWhiteSpace (rev ?a)) = rev (rev ?a)"
    by (simp only: takeWhile_dropWhile_id)
  then have "?a = trim s @ ?t" by (simp only: rev_append rev_rev_ident trim_def)
  moreover have "s = takeWhile isWhiteSpace s @ ?a"
    by (simp only: takeWhile_dropWhile_id)
  ultimately have "s = takeWhile isWhiteSpace s @ trim s @ ?t" by simp
  moreover have "\<forall>c \<in> set (takeWhile isWhiteSpace s). isWhiteSpace c"
    by (auto dest: set_takeWhileD)
  moreover have "\<forall>c \<in> set ?t. isWhiteSpace c"
    by (auto dest: set_takeWhileD)
  ultimately show ?thesis by blast
qed

lemma map_trim_pieces:
  assumes lead: "\<forall>c \<in> set lead. isWhiteSpace c" and trail: "\<forall>c \<in> set trail. isWhiteSpace c"
    and "X \<noteq> []"
  shows "map trim ((lead @ hd (butlast X @ [last X @ trail])) # tl (butlast X @ [last X @ trail]))
           = map trim X"
proof (cases X)
  case Nil
  with assms show ?thesis by simp
next
  case (Cons x xs)
  show ?thesis
  proof (cases xs)
    case Nil
    with Cons show ?thesis
      using trim_leading [OF lead, of "x @ trail"] trim_trailing [OF trail, of x] by simp
  next
    case (Cons y ys)
    then have "xs \<noteq> []" by simp
    then have "butlast xs @ [last xs] = xs"
      by (rule append_butlast_last_id)
    then have "map trim (butlast xs @ [last xs]) = map trim xs"
      by (rule arg_cong)
    then have "map trim xs = map trim (butlast xs) @ [trim (last xs)]"
      by simp
    then show ?thesis
      using \<open>X = x # xs\<close> \<open>xs \<noteq> []\<close> trim_leading [OF lead, of x] trim_trailing [OF trail, of "last xs"]
      by simp
  qed
qed

lemma split_trim:
  assumes "sep \<noteq> []" "\<forall>c \<in> set sep. \<not> isWhiteSpace c"
  shows "map trim (split (trim s) sep) = map trim (split s sep)"
proof -
  obtain lead trail where s: "s = lead @ trim s @ trail"
    and lead: "\<forall>c \<in> set lead. isWhiteSpace c" and trail: "\<forall>c \<in> set trail. isWhiteSpace c"
    using trim_decompose by blast
  have dl: "set lead \<inter> set sep = {}" using lead assms(2) by auto
  have dt: "set trail \<inter> set sep = {}" using trail assms(2) by auto
  let ?X = "split_loop sep [] (trim s)"
  let ?Y = "butlast ?X @ [last ?X @ trail]"
  have "split_loop sep [] (lead @ trim s @ trail) = split_loop sep ([] @ lead) (trim s @ trail)"
    by (rule split_loop_leading [OF assms(1) dl])
  also have "\<dots> = (lead @ hd (split_loop sep [] (trim s @ trail))) # tl (split_loop sep [] (trim s @ trail))"
    using split_loop_cur [of sep lead] by simp
  also have "split_loop sep [] (trim s @ trail) = ?Y"
    by (rule split_loop_trailing [OF assms(1) dt])
  finally have "split_loop sep [] (lead @ trim s @ trail) = (lead @ hd ?Y) # tl ?Y" .
  then have "map trim (split_loop sep [] (lead @ trim s @ trail)) = map trim ?X"
    using map_trim_pieces [OF lead trail split_loop_nonempty, of sep "[]" "trim s"] by simp
  then have "map trim (split_loop sep [] s) = map trim ?X" using s by simp
  then show ?thesis using assms(1) by (simp add: split_def)
qed

lemma delimiter_plain: "js ''|||'' \<noteq> [] \<and> (\<forall>c \<in> set (js ''|||''). \<not> isWhiteSpace c)"
  by (simp add: js_def isWhiteSpace_def)

lemma split_loop_absent: "c \<notin> set s \<Longrightarrow> split_loop [c] cur s = [cur @ s]"
  by (induction s arbitrary: cur) auto

lemma split_loop_first:
  "c \<notin> set a \<Longrightarrow> split_loop [c] cur (a @ c # b) = (cur @ a) # split_loop [c] [] b"
  by (induction a arbitrary: cur) auto

lemma split_pair:
  "c \<notin> set a \<Longrightarrow> c \<notin> set b \<Longrightarrow> split (a @ c # b) [c] = [a, b]"
  by (simp add: split_def split_loop_first split_loop_absent)

lemma js_slash: "js ''/'' = [0x2F]"
  by (simp add: js_def)


section \<open>Properties of the rate governor\<close>

lemma js_le_two: "js_le r (Fin 2) \<longleftrightarrow> r = NegInf \<or> (\<exists>x. r = Fin x \<and> x \<le> 2)"
  by (cases r) auto

text \<open>
  Claim C6. \<open>waitForRateLimit\<close> sets a timer exactly when \<open>rateLimitRemaining <= 2\<close>
  and less than 1000 ms have passed since \<open>lastRequestTime\<close>; the delay is then what is
  left of the 1000 ms, a positive time; in every other state no timer is set. Either way
  the only field written is \<open>lastRequestTime\<close>.
\<close>

theorem waitForRateLimit_policy:
  "((\<exists>w. fst (waitForRateLimit now resumed s) = Some w)
      \<longleftrightarrow> js_le (rateLimitRemaining s) (Fin 2) \<and> now - lastRequestTime s < 1000)
   \<and> (\<forall>w. fst (waitForRateLimit now resumed s) = Some w
          \<longrightarrow> w = 1000 - (now - lastRequestTime s) \<and> 0 < w)
   \<and> snd (waitForRateLimit now resumed s) = s\<lparr>lastRequestTime := resumed\<rparr>"
  by (auto simp: waitForRateLimit_def Let_def)

theorem waitForRateLimit_policy_witness:
  "js_le (Fin 2) (Fin 2) \<and> (5400 :: int) - 5000 < 1000
   \<and> fst (waitForRateLimit 5400 6000 (new_ShopifyAPI\<lparr>rateLimitRemaining := Fin 2, lastRequestTime := 5000\<rparr>)) = Some 600
   \<and> fst (waitForRateLimit 5400 5400 (new_ShopifyAPI\<lparr>rateLimitRemaining := Fin 3, lastRequestTime := 5000\<rparr>)) = None
   \<and> fst (waitForRateLimit 6000 6000 (new_ShopifyAPI\<lparr>rateLimitRemaining := Fin 2, lastRequestTime := 5000\<rparr>)) = None"
  using waitForRateLimit_policy [of 5400 6000 "new_ShopifyAPI\<lparr>rateLimitRemaining := Fin 2, lastRequestTime := 5000\<rparr>"]
  by (simp add: waitForRateLimit_def new_ShopifyAPI_def Let_def)

text \<open>
  Claim C7. \<open>updateRateLimit\<close> has no step that throws. When the header is absent or
  empty the state is returned as it was, in all its fields. When the header is there,
  only \<open>rateLimitRemaining\<close> is written, with the second number of the header minus
  the first: for a header \<open>used/total\<close>, \<open>total - used\<close>.
\<close>

theorem updateRateLimit_frame:
  "(headers ''X-Shopify-Shop-Api-Call-Limit'' = None
      \<or> headers ''X-Shopify-Shop-Api-Call-Limit'' = Some []
    \<longrightarrow> updateRateLimit toNumber headers s = s)
   \<and> (\<forall>h. headers ''X-Shopify-Shop-Api-Call-Limit'' = Some h \<and> h \<noteq> []
        \<longrightarrow> updateRateLimit toNumber headers s =
              s\<lparr>rateLimitRemaining :=
                  js_sub (element_or_undefined (map toNumber (split h (js ''/''))) 1)
                         (element_or_undefined (map toNumber (split h (js ''/''))) 0)\<rparr>)
   \<and> (\<forall>used total. headers ''X-Shopify-Shop-Api-Call-Limit'' = Some (used @ js ''/'' @ total)
          \<and> 0x2F \<notin> set used \<and> 0x2F \<notin> set total
        \<longrightarrow> updateRateLimit toNumber headers s =
              s\<lparr>rateLimitRemaining := js_sub (toNumber total) (toNumber used)\<rparr>)"
  by (auto simp: updateRateLimit_def truthy_def Let_def element_or_undefined_def js_slash split_pair)

theorem updateRateLimit_frame_witness:
  "updateRateLimit decimalNumber [''X-Shopify-Shop-Api-Call-Limit'' \<mapsto> js ''32/40''] new_ShopifyAPI
     = new_ShopifyAPI\<lparr>rateLimitRemaining := Fin 8\<rparr>
   \<and> updateRateLimit decimalNumber Map.empty (new_ShopifyAPI\<lparr>rateLimitRemaining := Fin 8\<rparr>)
     = new_ShopifyAPI\<lparr>rateLimitRemaining := Fin 8\<rparr>
   \<and> updateRateLimit decimalNumber [''X-Shopify-Shop-Api-Call-Limit'' \<mapsto> []] (new_ShopifyAPI\<lparr>rateLimitRemaining := Fin 8\<rparr>)
     = new_ShopifyAPI\<lparr>rateLimitRemaining := Fin 8\<rparr>"
proof -
  have a: "decimalNumber (js ''32'') = Fin 32" "decimalNumber (js ''40'') = Fin 40"
    by (simp_all add: decimalNumber_def js_def isDigit_def)
  have b: "js ''32/40'' = js ''32'' @ js ''/'' @ js ''40''"
    by (simp add: js_def)
  have c: "0x2F \<notin> set (js ''32'')" "0x2F \<notin> set (js ''40'')"
    by (simp_all add: js_def)
  show ?thesis
    using updateRateLimit_frame [of "[''X-Shopify-Shop-Api-Call-Limit'' \<mapsto> js ''32/40'']" decimalNumber new_ShopifyAPI]
      updateRateLimit_frame [of Map.empty decimalNumber "new_ShopifyAPI\<lparr>rateLimitRemaining := Fin 8\<rparr>"]
      updateRateLimit_frame [of "[''X-Shopify-Shop-Api-Call-Limit'' \<mapsto> []]" decimalNumber "new_ShopifyAPI\<lparr>rateLimitRemaining := Fin 8\<rparr>"]
      a b c
    by simp
qed


section \<open>Properties of the pre-flight check\<close>

text \<open>
  Claim C9. \<open>validateTranslationRequest\<close> accepts exactly when some field flag is true
  and some item is selected. When it rejects, it logs one entry of level error, and
  \<open>translateProducts\<close>, \<open>translateCollections\<close> and \<open>translatePages\<close> return
  before any of their network calls.
\<close>

theorem validateTranslationRequest_accepts:
  "(fst (validateTranslationRequest selectedFields selectedIds itemType)
      \<longleftrightarrow> (\<exists>name. (name, True) \<in> set selectedFields) \<and> selectedIds \<noteq> [])
   \<and> (\<not> fst (validateTranslationRequest selectedFields selectedIds itemType)
        \<longrightarrow> (\<exists>msg. snd (validateTranslationRequest selectedFields selectedIds itemType)
                      = [(''error'', msg)])
            \<and> translateProducts selectedFields selectedIds job = []
            \<and> translateCollections selectedFields selectedIds job = []
            \<and> translatePages selectedFields selectedIds job = [])
   \<and> (fst (validateTranslationRequest selectedFields selectedIds itemType)
        \<longrightarrow> snd (validateTranslationRequest selectedFields selectedIds itemType) = []
            \<and> translateProducts selectedFields selectedIds job = job)"
  by (auto simp: validateTranslationRequest_def Let_def list_ex_iff
        translateProducts_def translateCollections_def translatePages_def)

theorem validateTranslationRequest_accepts_witness:
  "validateTranslationRequest [(''title'', False), (''tags'', True)] [1 :: nat] ''products'' = (True, [])
   \<and> validateTranslationRequest [(''title'', False), (''tags'', False)] [1 :: nat] ''products''
       = (False, [(''error'', ''Please select at least one field to translate for products'')])
   \<and> validateTranslationRequest [(''title'', True)] ([] :: nat list) ''products''
       = (False, [(''error'', ''Please select at least one product to translate'')])
   \<and> translateProducts [(''title'', True)] ([] :: nat list) [''GET product''] = []"
  using validateTranslationRequest_accepts [of "[(''title'', True)]" "[] :: nat list" "''products''" "[''GET product'']"]
  by (simp add: validateTranslationRequest_def translateProducts_def)


section \<open>Properties of the response decoder\<close>

lemma request_of_with_translation [simp]: "request_of (with_translation item t) = item"
  by (simp add: request_of_def with_translation_def request.truncate_def request.extend_def result.fields_def)

lemma translatedText_with_translation [simp]: "translatedText (with_translation item t) = t"
  by (simp add: with_translation_def request.extend_def result.fields_def)

lemma length_echo [simp]: "length (echo batch) = length batch"
  by (simp add: echo_def)

lemma request_of_echo [simp]: "map request_of (echo batch) = batch"
  by (simp add: echo_def comp_def)

lemma echo_nth: "k < length batch \<Longrightarrow> translatedText (echo batch ! k) = originalText (batch ! k)"
  by (simp add: echo_def)

lemma parseBatchResponse_failed:
  "response_text response = Inl e \<Longrightarrow> parseBatchResponse response batch = Inr (echo batch)"
  by (simp add: parseBatchResponse_def parseBatchResponse_try_def)

lemma parseBatchResponse_decoded:
  "response_text response = Inr body \<Longrightarrow>
   parseBatchResponse response batch =
     Inr (map (\<lambda>(index, item).
                 with_translation item
                   (translation_or (map trim (split body (js ''|||''))) index (originalText item)))
              (enumerate 0 batch))"
  by (simp add: parseBatchResponse_def parseBatchResponse_try_def)

lemma decoded_nth:
  "k < length batch \<Longrightarrow>
   map (\<lambda>(index, item). with_translation item (translation_or ps index (originalText item)))
       (enumerate 0 batch) ! k
     = with_translation (batch ! k) (translation_or ps k (originalText (batch ! k)))"
  by (simp add: nth_enumerate_eq)

lemma decoded_requests:
  "map request_of
     (map (\<lambda>(index, item). with_translation item (translation_or ps index (originalText item)))
          (enumerate n batch)) = batch"
  by (induction batch arbitrary: n) simp_all

lemma parseBatchResponse_shape:
  "\<exists>results. parseBatchResponse response batch = Inr results
     \<and> length results = length batch \<and> map request_of results = batch"
proof (cases "response_text response")
  case (Inl e)
  then show ?thesis by (simp add: parseBatchResponse_failed)
next
  case (Inr body)
  then show ?thesis by (simp add: parseBatchResponse_decoded decoded_requests del: map_map)
qed

lemma response_text_content:
  "response_text \<lparr>choices = Some (\<lparr>message = Some \<lparr>content = Some t\<rparr>\<rparr> # rest), usage = u\<rparr>
     = Inr (trim t)"
  by (simp add: response_text_def)

lemma pieces_of_content:
  "map trim (split (trim t) (js ''|||'')) = map trim (split t (js ''|||''))"
  using delimiter_plain by (intro split_trim) auto

lemma translation_or_take:
  "k < n \<Longrightarrow> translation_or (take n ps) k fb = translation_or ps k fb"
  by (simp add: translation_or_def)

text \<open>
  Claim C3. \<open>parseBatchResponse\<close> never raises and returns one result per request of
  the batch, in the order of the batch. When the response has a text, its pieces are the
  text split at \<open>|||\<close>, each trimmed; the result at position \<open>k\<close> is made of piece
  \<open>k\<close> and the request's \<open>originalText\<close>, it is the same when the pieces beyond the
  size of the batch are dropped, and it is the \<open>originalText\<close> when there is no piece
  \<open>k\<close>. When the response has no text, every result is the echo of its request.
\<close>

theorem parseBatchResponse_decodes:
  "\<exists>results. parseBatchResponse response batch = Inr results
     \<and> length results = length batch
     \<and> map request_of results = batch
     \<and> (\<forall>t rest u pieces.
           response = \<lparr>choices = Some (\<lparr>message = Some \<lparr>content = Some t\<rparr>\<rparr> # rest), usage = u\<rparr>
           \<and> pieces = map trim (split t (js ''|||''))
         \<longrightarrow> (\<forall>k < length batch.
                 translatedText (results ! k) = translation_or pieces k (originalText (batch ! k))
               \<and> translatedText (results ! k)
                   = translation_or (take (length batch) pieces) k (originalText (batch ! k))
               \<and> (length pieces \<le> k \<longrightarrow> translatedText (results ! k) = originalText (batch ! k))))
     \<and> (\<forall>e. response_text response = Inl e \<longrightarrow> results = echo batch)"
proof (cases "response_text response")
  case (Inl e)
  then have "parseBatchResponse response batch = Inr (echo batch)"
    by (rule parseBatchResponse_failed)
  moreover have "\<And>t rest u. response \<noteq> \<lparr>choices = Some (\<lparr>message = Some \<lparr>content = Some t\<rparr>\<rparr> # rest), usage = u\<rparr>"
    using Inl response_text_content by auto
  ultimately show ?thesis by simp
next
  case (Inr body)
  let ?ps = "map trim (split body (js ''|||''))"
  let ?rs = "map (\<lambda>(index, item). with_translation item (translation_or ?ps index (originalText item)))
                 (enumerate 0 batch)"
  have run: "parseBatchResponse response batch = Inr ?rs"
    using Inr by (rule parseBatchResponse_decoded)
  have len: "length ?rs = length batch" by simp
  have req: "map request_of ?rs = batch" by (rule decoded_requests)
  have nth: "translatedText (?rs ! k) = translation_or ?ps k (originalText (batch ! k))"
    if "k < length batch" for k
    using that by (simp only: decoded_nth translatedText_with_translation)
  have pieces: "?ps = map trim (split t (js ''|||''))"
    if "response = \<lparr>choices = Some (\<lparr>message = Some \<lparr>content = Some t\<rparr>\<rparr> # rest), usage = u\<rparr>"
    for t rest u
  proof -
    from that Inr have "body = trim t" by (simp add: response_text_content)
    then show ?thesis by (simp only: pieces_of_content)
  qed
  have big: "\<forall>t rest u pieces.
           response = \<lparr>choices = Some (\<lparr>message = Some \<lparr>content = Some t\<rparr>\<rparr> # rest), usage = u\<rparr>
           \<and> pieces = map trim (split t (js ''|||''))
         \<longrightarrow> (\<forall>k < length batch.
                 translatedText (?rs ! k) = translation_or pieces k (originalText (batch ! k))
               \<and> translatedText (?rs ! k)
                   = translation_or (take (length batch) pieces) k (originalText (batch ! k))
               \<and> (length pieces \<le> k \<longrightarrow> translatedText (?rs ! k) = originalText (batch ! k)))"
  proof (intro allI impI, elim conjE)
    fix t rest u pieces k
    assume r: "response = \<lparr>choices = Some (\<lparr>message = Some \<lparr>content = Some t\<rparr>\<rparr> # rest), usage = u\<rparr>"
      and p: "pieces = map trim (split t (js ''|||''))" and k: "k < length batch"
    have eq: "?ps = pieces" using pieces [OF r] p by simp
    have a: "translatedText (?rs ! k) = translation_or pieces k (originalText (batch ! k))"
      using nth [OF k] eq by simp
    moreover have "translation_or (take (length batch) pieces) k (originalText (batch ! k))
        = translation_or pieces k (originalText (batch ! k))"
      using k by (rule translation_or_take)
    moreover have "length pieces \<le> k \<longrightarrow> translation_or pieces k (originalText (batch ! k)) = originalText (batch ! k)"
      by (simp add: translation_or_def)
    ultimately show "translatedText (?rs ! k) = translation_or pieces k (originalText (batch ! k))
               \<and> translatedText (?rs ! k)
                   = translation_or (take (length batch) pieces) k (originalText (batch ! k))
               \<and> (length pieces \<le> k \<longrightarrow> translatedText (?rs ! k) = originalText (batch ! k))"
      by simp
  qed
  have other: "\<forall>e. response_text response = Inl e \<longrightarrow> ?rs = echo batch"
    using Inr by simp
  from run len req big other show ?thesis by blast
qed

lemmas run_decode = parseBatchResponse_def parseBatchResponse_try_def response_text_def
  split_def js_def trim_def isWhiteSpace_def translation_or_def truthy_def sample_request_def
  sample_completion_def

theorem parseBatchResponse_decodes_witness:
  "map trim (split (js '' A||| '') (js ''|||'')) = [js ''A'', []]
   \<and> parseBatchResponse (sample_completion (js '' A||| ''))
     [sample_request ''title'' (js ''one''), sample_request ''tags'' (js ''two''),
      sample_request ''title'' (js ''three'')]
   = Inr [with_translation (sample_request ''title'' (js ''one'')) (js ''A''),
          with_translation (sample_request ''tags'' (js ''two'')) (js ''two''),
          with_translation (sample_request ''title'' (js ''three'')) (js ''three'')]
   \<and> parseBatchResponse (sample_completion (js ''A|||B|||C'')) [sample_request ''title'' (js ''one'')]
   = Inr [with_translation (sample_request ''title'' (js ''one'')) (js ''A'')]"
  using parseBatchResponse_decodes [of "sample_completion (js '' A||| '')"
      "[sample_request ''title'' (js ''one''), sample_request ''tags'' (js ''two''),
        sample_request ''title'' (js ''three'')]"]
  by (simp add: run_decode)

text \<open>
  Claim C10. \<open>parseBatchResponse\<close> puts the request's \<open>originalText\<close> in the place
  of every piece that trims to the empty string, wherever the piece stands; so the
  \<open>translatedText\<close> of a request whose \<open>originalText\<close> is not empty is never empty.
\<close>

theorem parseBatchResponse_never_empty:
  "\<exists>results. parseBatchResponse response batch = Inr results
     \<and> (\<forall>k < length batch. originalText (batch ! k) \<noteq> [] \<longrightarrow> translatedText (results ! k) \<noteq> [])
     \<and> (\<forall>t rest u k.
           response = \<lparr>choices = Some (\<lparr>message = Some \<lparr>content = Some t\<rparr>\<rparr> # rest), usage = u\<rparr>
           \<and> k < length batch \<and> k < length (split t (js ''|||''))
           \<and> trim (split t (js ''|||'') ! k) = []
         \<longrightarrow> translatedText (results ! k) = originalText (batch ! k))"
proof (cases "response_text response")
  case (Inl e)
  then have "parseBatchResponse response batch = Inr (echo batch)"
    by (rule parseBatchResponse_failed)
  moreover have "\<And>t rest u. response \<noteq> \<lparr>choices = Some (\<lparr>message = Some \<lparr>content = Some t\<rparr>\<rparr> # rest), usage = u\<rparr>"
    using Inl response_text_content by auto
  ultimately show ?thesis by (simp add: echo_nth)
next
  case (Inr body)
  let ?ps = "map trim (split body (js ''|||''))"
  let ?rs = "map (\<lambda>(index, item). with_translation item (translation_or ?ps index (originalText item)))
                 (enumerate 0 batch)"
  have run: "parseBatchResponse response batch = Inr ?rs"
    using Inr by (rule parseBatchResponse_decoded)
  have nth: "translatedText (?rs ! k) = translation_or ?ps k (originalText (batch ! k))"
    if "k < length batch" for k
    using that by (simp only: decoded_nth translatedText_with_translation)
  have a: "\<forall>k < length batch. originalText (batch ! k) \<noteq> [] \<longrightarrow> translatedText (?rs ! k) \<noteq> []"
  proof (intro allI impI)
    fix k assume k: "k < length batch" and ne: "originalText (batch ! k) \<noteq> []"
    have "translation_or ?ps k (originalText (batch ! k)) \<noteq> []"
      using ne by (auto simp: translation_or_def truthy_def)
    then show "translatedText (?rs ! k) \<noteq> []" using nth [OF k] by simp
  qed
  have b: "\<forall>t rest u k.
           response = \<lparr>choices = Some (\<lparr>message = Some \<lparr>content = Some t\<rparr>\<rparr> # rest), usage = u\<rparr>
           \<and> k < length batch \<and> k < length (split t (js ''|||''))
           \<and> trim (split t (js ''|||'') ! k) = []
         \<longrightarrow> translatedText (?rs ! k) = originalText (batch ! k)"
  proof (intro allI impI, elim conjE)
    fix t rest u k
    assume r: "response = \<lparr>choices = Some (\<lparr>message = Some \<lparr>content = Some t\<rparr>\<rparr> # rest), usage = u\<rparr>"
      and k: "k < length batch" and kp: "k < length (split t (js ''|||''))"
      and blank: "trim (split t (js ''|||'') ! k) = []"
    from r Inr have "body = trim t" by (simp add: response_text_content)
    then have "?ps = map trim (split t (js ''|||''))" by (simp only: pieces_of_content)
    moreover have "map trim (split t (js ''|||'')) ! k = []" using kp blank by simp
    ultimately have "translation_or ?ps k (originalText (batch ! k)) = originalText (batch ! k)"
      by (simp add: translation_or_def truthy_def)
    then show "translatedText (?rs ! k) = originalText (batch ! k)" using nth [OF k] by simp
  qed
  from run a b show ?thesis by blast
qed

theorem parseBatchResponse_never_empty_witness:
  "trim (split (js ''|||B'') (js ''|||'') ! 0) = []
   \<and> parseBatchResponse (sample_completion (js ''|||B''))
     [sample_request ''title'' (js ''one''), sample_request ''tags'' (js ''two'')]
   = Inr [with_translation (sample_request ''title'' (js ''one'')) (js ''one''),
          with_translation (sample_request ''tags'' (js ''two'')) (js ''B'')]"
  using parseBatchResponse_never_empty [of "sample_completion (js ''|||B'')"
      "[sample_request ''title'' (js ''one''), sample_request ''tags'' (js ''two'')]"]
  by (simp add: run_decode)


section \<open>Properties of the orchestrator\<close>

lemma makeOpenAIRequest_key: "apiKey (snd (makeOpenAIRequest w reply s)) = apiKey s"
  by (simp add: makeOpenAIRequest_def Let_def split: fetch_reply.splits option.splits)

lemma translateBatch_snd:
  "snd (translateBatch w reply batch s) = snd (makeOpenAIRequest w reply s)"
proof -
  obtain r s' where m: "makeOpenAIRequest w reply s = (r, s')"
    by (cases "makeOpenAIRequest w reply s")
  then show ?thesis by (cases r) (simp_all add: translateBatch_def)
qed

lemma try_batch_snd:
  "snd (try_batch w reply i batchCount batch results s) = snd (makeOpenAIRequest w reply s)"
proof -
  obtain r s' where t: "translateBatch w reply batch s = (r, s')"
    by (cases "translateBatch w reply batch s")
  then have "snd (try_batch w reply i batchCount batch results s) = s'"
    by (cases r) (simp_all add: try_batch_def split: option.splits)
  then show ?thesis using t translateBatch_snd [of w reply batch s] by simp
qed

lemma try_batch_key:
  "keyMissing (snd (try_batch w reply i batchCount batch results s)) = keyMissing s"
  by (simp add: try_batch_snd keyMissing_def makeOpenAIRequest_key)

text \<open>
  With hooks that return, the \<open>try\<close> and \<open>catch\<close> blocks of one batch add to
  \<open>results\<close> what the specification says.
\<close>

lemma progress_hook_returns: "hooks_return w \<Longrightarrow> updateProgress w = Some f \<Longrightarrow> f a b = None"
  by (simp add: hooks_return_def)

lemma tokens_hook_returns: "hooks_return w \<Longrightarrow> updateTokenCount w = Some g \<Longrightarrow> g n = None"
  by (simp add: hooks_return_def)

lemma translateBatch_quiet:
  assumes "hooks_return w" and "\<not> keyMissing s"
  shows "(case fst (translateBatch w reply batch s) of
            Inr results \<Rightarrow> results | Inl e \<Rightarrow> echo batch)
           = spec_batch_results reply batch
         \<and> (\<forall>e. fst (translateBatch w reply batch s) = Inl e
                \<longrightarrow> spec_batch_results reply batch = echo batch)"
proof (cases "\<exists>data. reply = Body (Some data)")
  case False
  then show ?thesis using assms(2)
    by (auto simp: translateBatch_def makeOpenAIRequest_def spec_batch_results_def
        split: fetch_reply.splits option.splits)
next
  case True
  then obtain data where r: "reply = Body (Some data)" by blast
  obtain rs where p: "parseBatchResponse data batch = Inr rs"
    using parseBatchResponse_shape by blast
  have "\<exists>s'. makeOpenAIRequest w reply s = (Inr data, s')"
  proof (cases "usage data")
    case None
    then show ?thesis using assms(2) r by (simp add: makeOpenAIRequest_def)
  next
    case (Some u)
    show ?thesis
    proof (cases "updateTokenCount w")
      case None
      then show ?thesis using assms(2) r Some by (simp add: makeOpenAIRequest_def Let_def)
    next
      case (Some g)
      have "g n = None" for n using assms(1) Some by (rule tokens_hook_returns)
      then show ?thesis
        using assms(2) r Some \<open>usage data = Some u\<close> by (simp add: makeOpenAIRequest_def Let_def)
    qed
  qed
  then obtain s' where "makeOpenAIRequest w reply s = (Inr data, s')" by blast
  then have "fst (translateBatch w reply batch s) = Inr rs"
    using p by (simp add: translateBatch_def)
  then show ?thesis using r p by (simp add: spec_batch_results_def)
qed

lemma try_batch_quiet:
  assumes "hooks_return w" and "\<not> keyMissing s"
  shows "(case fst (try_batch w reply i batchCount batch results s) of
            (None, results') \<Rightarrow> results'
          | (Some e, results') \<Rightarrow> results' @ echo batch)
           = results @ spec_batch_results reply batch"
proof -
  obtain r s' where t: "translateBatch w reply batch s = (r, s')"
    by (cases "translateBatch w reply batch s")
  have q: "(case r of Inr results \<Rightarrow> results | Inl e \<Rightarrow> echo batch)
             = spec_batch_results reply batch"
    using translateBatch_quiet [OF assms, where reply = reply and batch = batch] t by simp
  show ?thesis
  proof (cases r)
    case (Inl e)
    then show ?thesis using t q by (simp add: try_batch_def)
  next
    case (Inr rs)
    show ?thesis
    proof (cases "updateProgress w")
      case None
      then show ?thesis using t q Inr by (simp add: try_batch_def)
    next
      case (Some f)
      with assms(1) have "f (i + 1) batchCount = None" by (rule progress_hook_returns)
      then show ?thesis using t q Inr Some by (simp add: try_batch_def)
    qed
  qed
qed

lemma spec_batch_results_requests: "map request_of (spec_batch_results reply batch) = batch"
proof (cases "\<exists>data. reply = Body (Some data)")
  case True
  then obtain data where r: "reply = Body (Some data)" by blast
  obtain rs where "parseBatchResponse data batch = Inr rs" "map request_of rs = batch"
    using parseBatchResponse_shape by blast
  with r show ?thesis by (simp add: spec_batch_results_def)
next
  case False
  then have "spec_batch_results reply batch = echo batch"
    by (simp add: spec_batch_results_def split: fetch_reply.splits option.splits)
  then show ?thesis by simp
qed

lemma batchTranslate_loop_quiet:
  assumes "hooks_return w"
  shows "\<not> keyMissing s \<Longrightarrow>
   fst (batchTranslate_loop w up lang ctx batchCount i batches acc s)
     = acc @ concat (map (\<lambda>(j, batch). spec_batch_results (up j lang ctx batch) batch)
                         (enumerate i batches))"
proof (induction batches arbitrary: i acc s)
  case Nil
  then show ?case by simp
next
  case (Cons b bs)
  let ?t = "try_batch w (up i lang ctx b) i batchCount b acc s"
  obtain e rs s' where t: "?t = ((e, rs), s')" by (cases ?t) auto
  have key: "\<not> keyMissing s'"
    using try_batch_key [of w "up i lang ctx b" i batchCount b acc s] t Cons.prems by simp
  have seg: "(case (e, rs) of (None, results') \<Rightarrow> results'
               | (Some e, results') \<Rightarrow> results' @ echo b)
               = acc @ spec_batch_results (up i lang ctx b) b"
    using try_batch_quiet [OF assms Cons.prems, where reply = "up i lang ctx b" and i = i and
        batchCount = batchCount and batch = b and results = acc] t by simp
  show ?case
  proof (cases e)
    case None
    then have "batchTranslate_loop w up lang ctx batchCount i (b # bs) acc s
        = batchTranslate_loop w up lang ctx batchCount (i + 1) bs rs s'"
      using t by simp
    then show ?thesis using Cons.IH [OF key, of "i + 1" rs] seg None by simp
  next
    case (Some err)
    then have "batchTranslate_loop w up lang ctx batchCount i (b # bs) acc s
        = batchTranslate_loop w up lang ctx batchCount (i + 1) bs (rs @ echo b) s'"
      using t by simp
    then show ?thesis using Cons.IH [OF key, of "i + 1" "rs @ echo b"] seg Some by simp
  qed
qed

lemma concat_results_requests:
  "map request_of (concat (map (\<lambda>(j, batch). spec_batch_results (up j lang ctx batch) batch)
                               (enumerate i batches))) = concat batches"
  by (induction batches arbitrary: i) (simp_all add: spec_batch_results_requests)

text \<open>
  What \<open>batchTranslate\<close> does in a page whose hooks return. With \<open>batchSize\<close> at least
  1 it returns; it throws when the key is missing, and only then; otherwise its results
  are, batch after batch, the decoded response of the batch, or the echo of the batch when
  its upstream call failed, one result per request and in the order of the requests.
\<close>

lemma batchTranslate_results_quiet:
  assumes "hooks_return w" and "1 \<le> batchSize s"
  shows "(keyMissing s \<longrightarrow> batchTranslate w up texts lang ctx s = Some (Inl KeyNotSet, s))
   \<and> (\<not> keyMissing s \<longrightarrow>
        (\<exists>results s' batches.
            batchTranslate w up texts lang ctx s = Some (Inr results, s')
          \<and> createBatches texts (batchSize s) = Some batches
          \<and> results = concat (map (\<lambda>(i, batch). spec_batch_results (up i lang ctx batch) batch)
                                    (enumerate 0 batches))
          \<and> length results = length texts
          \<and> map request_of results = texts))"
proof (intro conjI impI)
  assume "keyMissing s"
  then show "batchTranslate w up texts lang ctx s = Some (Inl KeyNotSet, s)"
    by (simp add: batchTranslate_def)
next
  assume key: "\<not> keyMissing s"
  from createBatches_loop_total [OF assms(2), of texts 0 "[]"]
  obtain batches where cb: "createBatches texts (batchSize s) = Some batches"
    and cat: "concat batches = texts" and emp: "texts = [] \<longrightarrow> batches = []"
    by (auto simp: createBatches_def)
  let ?rs = "concat (map (\<lambda>(i, batch). spec_batch_results (up i lang ctx batch) batch)
                         (enumerate 0 batches))"
  have req: "map request_of ?rs = texts"
    using concat_results_requests [of up lang ctx 0 batches] cat by simp
  then have "length (map request_of ?rs) = length texts" by simp
  then have len: "length ?rs = length texts" by simp
  have "\<exists>s'. batchTranslate w up texts lang ctx s = Some (Inr ?rs, s')"
  proof (cases "texts = []")
    case True
    with emp key show ?thesis by (simp add: batchTranslate_def)
  next
    case False
    obtain rs s' where
      loop: "batchTranslate_loop w up lang ctx (length batches) 0 batches [] s = (rs, s')"
      by (cases "batchTranslate_loop w up lang ctx (length batches) 0 batches [] s")
    then have "rs = ?rs"
      using batchTranslate_loop_quiet [OF assms(1) key, where up = up and lang = lang and ctx = ctx
        and batchCount = "length batches" and i = 0 and batches = batches and acc = "[]"]
      by simp
    with loop False key cb show ?thesis by (simp add: batchTranslate_def)
  qed
  with cb req len
  show "\<exists>results s' batches.
            batchTranslate w up texts lang ctx s = Some (Inr results, s')
          \<and> createBatches texts (batchSize s) = Some batches
          \<and> results = concat (map (\<lambda>(i, batch). spec_batch_results (up i lang ctx batch) batch)
                                    (enumerate 0 batches))
          \<and> length results = length texts
          \<and> map request_of results = texts"
    by blast
qed

lemmas run_service = new_TranslationService_def setApiKey_def keyMissing_def truthy_def
  makeOpenAIRequest_def translateBatch_def try_batch_def batchTranslate_def createBatches_def
  createBatches_loop.simps array_slice_def resetStats_def reported_tokens_def
  sample_usage_def spec_batch_results_def echo_def app_window_def updateProgress_page_def
  updateTokenCount_page_def Let_def

lemma batchTranslate_quiet_example:
  "batchTranslate (app_window True True)
     (\<lambda>i lang ctx batch. if i = 1 then NotOk else Body (Some (sample_usage (js ''A|||B'') 5)))
     [sample_request ''title'' (js ''one''), sample_request ''tags'' (js ''two''),
      sample_request ''title'' (js ''three''), sample_request ''tags'' (js ''four''),
      sample_request ''title'' (js ''five'')]
     (js ''es'') (js ''product'')
     (new_TranslationService\<lparr>apiKey := Some (js ''k''), batchSize := 2\<rparr>)
   = Some (Inr [with_translation (sample_request ''title'' (js ''one'')) (js ''A''),
                with_translation (sample_request ''tags'' (js ''two'')) (js ''B''),
                with_translation (sample_request ''title'' (js ''three'')) (js ''three''),
                with_translation (sample_request ''tags'' (js ''four'')) (js ''four''),
                with_translation (sample_request ''title'' (js ''five'')) (js ''A'')],
           new_TranslationService\<lparr>apiKey := Some (js ''k''), batchSize := 2,
             totalTokensUsed := 10, requestCount := 2\<rparr>)"
  by (simp add: run_service run_decode)

text \<open>
  Claim C1 says that the results are as many as the requests, one per request. The code
  does not keep to it: the progress hook is called inside the \<open>try\<close> block, after the
  results of the batch have been pushed, and when it throws the \<open>catch\<close> block pushes
  the echo of the same batch on top. In a page without the element
  \<open>translation-progress\<close>, one request whose upstream call succeeds comes back as two
  results, the translation and the echo.
\<close>

theorem batchTranslate_progress_throws:
  "batchTranslate (app_window False True)
     (\<lambda>i lang ctx batch. Body (Some (sample_usage (js ''Uno'') 5)))
     [sample_request ''title'' (js ''one'')] (js ''es'') (js ''product'')
     (new_TranslationService\<lparr>apiKey := Some (js ''k'')\<rparr>)
   = Some (Inr [with_translation (sample_request ''title'' (js ''one'')) (js ''Uno''),
                with_translation (sample_request ''title'' (js ''one'')) (js ''one'')],
           new_TranslationService\<lparr>apiKey := Some (js ''k''),
             totalTokensUsed := 5, requestCount := 1\<rparr>)"
  by (simp add: run_service run_decode)

text \<open>
  The token hook is called inside \<open>makeOpenAIRequest\<close>: when it throws, a batch whose
  upstream call succeeded is echoed, and its tokens are counted all the same.
\<close>

lemma batchTranslate_token_hook_throws:
  "batchTranslate (app_window True False)
     (\<lambda>i lang ctx batch. Body (Some (sample_usage (js ''Uno'') 5)))
     [sample_request ''title'' (js ''one'')] (js ''es'') (js ''product'')
     (new_TranslationService\<lparr>apiKey := Some (js ''k'')\<rparr>)
   = Some (Inr [with_translation (sample_request ''title'' (js ''one'')) (js ''one'')],
           new_TranslationService\<lparr>apiKey := Some (js ''k''),
             totalTokensUsed := 5, requestCount := 1\<rparr>)"
  by (simp add: run_service run_decode)


section \<open>Properties of the usage counters\<close>















section \<open>Properties of the HTML text bridge\<close>

lemma walk_text_Cons:
  "walk_text (n # ns) = text_values n @ walk_text ns"
  by (simp add: walk_text_def)

lemma walk_text_Element: "text_values (Element name attrs children) = walk_text children"
  by (simp add: walk_text_def)

lemma walk_text_set_nodeValue:
  "k < length (walk_text nodes) \<Longrightarrow>
   walk_text (set_nodeValue k v nodes) = (walk_text nodes)[k := v]"
proof (induction k v nodes rule: set_nodeValue.induct)
  case (1 k v)
  then show ?case by (simp add: walk_text_def)
next
  case (2 k v x nodes)
  then show ?case by (cases k) (simp_all add: walk_text_Cons)
next
  case (3 k v x nodes)
  then show ?case by (simp add: walk_text_Cons)
next
  case (4 k v name attrs children nodes)
  then show ?case
    by (auto simp: walk_text_Cons walk_text_Element list_update_append simp del: text_values.simps)
qed

lemma shape_set_nodeValue: "map shape (set_nodeValue k v nodes) = map shape nodes"
  by (induction k v nodes rule: set_nodeValue.induct) auto

lemma nonblank_bound: "k \<in> set (nonblank_text_nodes tree) \<Longrightarrow> k < length (walk_text tree)"
  by (simp add: nonblank_text_nodes_def)

lemmas run_html = html_dom_def html_parse_def html_serialize_def html_supported_def escape_text_def
  plain_element_def closes_paragraph_def flush_text_def isAlpha_def toLower_def isDigit_def js_def
  restoreHTML_def nonblank_text_nodes_def walk_text_def truthy_def trim_def isWhiteSpace_def
  textContent_def stripHTML_def


text \<open>
  Claim C5, as the code has it. \<open>restoreHTML\<close> returns the serialisation of the parsed
  markup: of the tree as it was parsed when the text nodes that are not blank are none or
  several, which is the markup itself when serialising what was parsed gives the markup
  back; and, when there is exactly one such text node, of the tree in which that node
  holds \<open>translated\<close> and nothing else has changed.
\<close>

theorem restoreHTML_reserializes:
  "(length (nonblank_text_nodes (parseFragment d markup)) \<noteq> 1
      \<longrightarrow> restoreHTML d markup translated = serializeFragment d (parseFragment d markup))
   \<and> (length (nonblank_text_nodes (parseFragment d markup)) \<noteq> 1
        \<and> serializeFragment d (parseFragment d markup) = markup
      \<longrightarrow> restoreHTML d markup translated = markup)
   \<and> (\<forall>k. nonblank_text_nodes (parseFragment d markup) = [k]
      \<longrightarrow> (\<exists>tree'. restoreHTML d markup translated = serializeFragment d tree'
             \<and> walk_text tree' = (walk_text (parseFragment d markup))[k := translated]
             \<and> map shape tree' = map shape (parseFragment d markup)))"
proof (intro conjI impI allI)
  assume "length (nonblank_text_nodes (parseFragment d markup)) \<noteq> 1"
  then show "restoreHTML d markup translated = serializeFragment d (parseFragment d markup)"
    by (simp add: restoreHTML_def Let_def)
next
  assume "length (nonblank_text_nodes (parseFragment d markup)) \<noteq> 1
        \<and> serializeFragment d (parseFragment d markup) = markup"
  then show "restoreHTML d markup translated = markup"
    by (simp add: restoreHTML_def Let_def)
next
  fix k
  assume one: "nonblank_text_nodes (parseFragment d markup) = [k]"
  let ?tree = "parseFragment d markup"
  have "k \<in> set (nonblank_text_nodes ?tree)" using one by simp
  then have k: "k < length (walk_text ?tree)" by (rule nonblank_bound)
  have "restoreHTML d markup translated = serializeFragment d (set_nodeValue k translated ?tree)"
    using one by (simp add: restoreHTML_def Let_def)
  moreover have "walk_text (set_nodeValue k translated ?tree) = (walk_text ?tree)[k := translated]"
    using k by (rule walk_text_set_nodeValue)
  moreover have "map shape (set_nodeValue k translated ?tree) = map shape ?tree"
    by (rule shape_set_nodeValue)
  ultimately show "\<exists>tree'. restoreHTML d markup translated = serializeFragment d tree'
             \<and> walk_text tree' = (walk_text ?tree)[k := translated]
             \<and> map shape tree' = map shape ?tree"
    by blast
qed

theorem restoreHTML_reserializes_witness:
  "nonblank_text_nodes (parseFragment html_dom (js ''<p>Soft cotton</p>'')) = [0]
   \<and> restoreHTML html_dom (js ''<p>Soft cotton</p>'') (js ''Algodon suave'')
       = js ''<p>Algodon suave</p>''
   \<and> length (nonblank_text_nodes (parseFragment html_dom (js ''<p>a</p><p>b</p>''))) = 2
   \<and> serializeFragment html_dom (parseFragment html_dom (js ''<p>a</p><p>b</p>''))
       = js ''<p>a</p><p>b</p>''
   \<and> restoreHTML html_dom (js ''<p>a</p><p>b</p>'') (js ''x'') = js ''<p>a</p><p>b</p>''"
  using restoreHTML_reserializes [of html_dom "js ''<p>a</p><p>b</p>''" "js ''x''"]
    restoreHTML_reserializes [of html_dom "js ''<p>Soft cotton</p>''" "js ''Algodon suave''"]
  by (simp add: run_html)

text \<open>
  Claim C5, in the words of the specification, fails: markup with two text nodes that
  are not blank, written with tag names in upper case, comes back with them in lower
  case.
\<close>

theorem restoreHTML_unchanged_counterexample:
  "html_supported (js ''<DIV>a</DIV><DIV>b</DIV>'')
   \<and> length (nonblank_text_nodes (parseFragment html_dom (js ''<DIV>a</DIV><DIV>b</DIV>''))) = 2
   \<and> restoreHTML html_dom (js ''<DIV>a</DIV><DIV>b</DIV>'') (js ''x'') = js ''<div>a</div><div>b</div>''
   \<and> restoreHTML html_dom (js ''<DIV>a</DIV><DIV>b</DIV>'') (js ''x'') \<noteq> js ''<DIV>a</DIV><DIV>b</DIV>''"
  by (simp add: run_html)


section \<open>Properties of the field extractor\<close>

text \<open>
  What the extractor does filter: no request has an empty \<open>originalText\<close>, and the
  text of a request that carries markup is not blank.
\<close>

lemma plain_field_nonempty:
  "r \<in> set (plain_field sf name v i) \<Longrightarrow> originalText r \<noteq> [] \<and> \<not> hasHTML r"
  by (auto simp: plain_field_def truthy_def split: option.splits if_splits)

lemma markup_field_nonblank:
  "r \<in> set (markup_field d sf name v i) \<Longrightarrow> trim (originalText r) \<noteq> [] \<and> originalText r \<noteq> []"
  by (auto simp: markup_field_def truthy_def trim_def Let_def split: option.splits if_splits)

lemma validateFieldsForTranslation_nonempty:
  "r \<in> set (validateFieldsForTranslation d it sf ty) \<Longrightarrow>
   originalText r \<noteq> [] \<and> (hasHTML r \<longrightarrow> trim (originalText r) \<noteq> [])"
  by (auto simp: validateFieldsForTranslation_def split: if_splits
      dest: plain_field_nonempty markup_field_nonblank)

text \<open>
  Claim C4. A title that consists of spaces is truthy, so \<open>validateFieldsForTranslation\<close>
  emits a request for it, whose \<open>originalText\<close> is whitespace only.
\<close>

theorem validateFieldsForTranslation_blank_title:
  "validateFieldsForTranslation d
     \<lparr>item_id = 7, title = Some (js ''  ''), body_html = None, tags = None\<rparr>
     [(''title'', True)] ''product''
   = [\<lparr>field = ''title'', originalText = js ''  '', itemId = 7,
       hasHTML = False, originalHTML = None\<rparr>]
   \<and> trim (js ''  '') = []"
  by (simp add: validateFieldsForTranslation_def plain_field_def markup_field_def selected_def
      truthy_def js_def trim_def isWhiteSpace_def)

end
